theory Spec2Isabelle
  imports Main "HOL-Library.Sublist"
begin

section \<open>Python strings\<close>

text \<open>
  A Python \<open>str\<close> is modelled as a \<open>string\<close>: one \<open>char\<close> per code point, for the
  code points 0 to 255. \<open>len\<close> is \<open>length\<close>.
\<close>

text \<open>\<open>str.isspace\<close> on one character, which is also what \<open>\s\<close> matches and what
  \<open>strip()\<close> removes: TAB, LF, VT, FF, CR, FS, GS, RS, US, SPACE, NEL and NBSP.\<close>

definition is_space :: "char \<Rightarrow> bool" where
  "is_space c =
     (c \<in> set [CHR 0x09, CHR 0x0A, CHR 0x0B, CHR 0x0C, CHR 0x0D, CHR 0x1C, CHR 0x1D,
                CHR 0x1E, CHR 0x1F, CHR 0x20, CHR 0x85, CHR 0xA0])"

text \<open>\<open>s.strip()\<close>.\<close>

definition strip_py :: "string \<Rightarrow> string" where
  "strip_py s = rev (dropWhile is_space (rev (dropWhile is_space s)))"

text \<open>\<open>needle in s\<close>.\<close>

fun contains :: "string \<Rightarrow> string \<Rightarrow> bool" where
  "contains needle [] = (needle = [])"
| "contains needle (c # cs) = (prefix needle (c # cs) \<or> contains needle cs)"

text \<open>\<open>s.replace(old, new)\<close>: the occurrences of \<open>old\<close> are taken from the left and do
  not overlap; an empty \<open>old\<close> puts \<open>new\<close> around every character.\<close>

fun replace_py :: "string \<Rightarrow> string \<Rightarrow> string \<Rightarrow> string" where
  "replace_py old new [] = (if old = [] then new else [])"
| "replace_py old new (c # cs) =
     (if old = [] then new @ c # replace_py old new cs
      else if prefix old (c # cs) then new @ replace_py old new (drop (length old) (c # cs))
      else c # replace_py old new cs)"

text \<open>\<open>s.split(sep)\<close> for a separator of one character.\<close>

fun split_py :: "char \<Rightarrow> string \<Rightarrow> string list" where
  "split_py sep [] = [[]]"
| "split_py sep (c # cs) =
     (if c = sep then [] # split_py sep cs
      else (case split_py sep cs of
              [] \<Rightarrow> [[c]]
            | w # ws \<Rightarrow> (c # w) # ws))"

text \<open>\<open>s.split(sep, 1)\<close> when \<open>sep in s\<close>: the text before the first separator and the
  text after it.\<close>

definition split_first :: "char \<Rightarrow> string \<Rightarrow> string \<times> string" where
  "split_first sep s = (takeWhile (\<lambda>c. c \<noteq> sep) s, drop 1 (dropWhile (\<lambda>c. c \<noteq> sep) s))"

text \<open>Joining lines with a newline between them; the long literals below are written
  line by line.\<close>

fun nl_join :: "string list \<Rightarrow> string" where
  "nl_join [] = []"
| "nl_join [l] = l"
| "nl_join (l # m # ls) = l @ CHR 0x0A # nl_join (m # ls)"

subsection \<open>Integers and text\<close>

definition is_digit :: "char \<Rightarrow> bool" where
  "is_digit c = (48 \<le> (of_char c :: nat) \<and> (of_char c :: nat) \<le> 57)"

text \<open>The character of a decimal digit \<open>n < 10\<close>.\<close>

definition digit_char :: "nat \<Rightarrow> char" where
  "digit_char n = ''0123456789'' ! n"

text \<open>\<open>str(n)\<close> for \<open>n \<ge> 0\<close>.\<close>

fun str_nat :: "nat \<Rightarrow> string" where
  "str_nat n = (if n < 10 then [digit_char n] else str_nat (n div 10) @ [digit_char (n mod 10)])"

text \<open>\<open>format(i, '02d')\<close>: at least two characters, padded with zeros on the left; the
  sign of a negative number counts as one of them.\<close>

definition format_02d :: "int \<Rightarrow> string" where
  "format_02d i =
     (if i < 0 then CHR ''-'' # str_nat (nat (- i))
      else if i < 10 then CHR ''0'' # str_nat (nat i)
      else str_nat (nat i))"

text \<open>The digits of an integer literal as \<open>int()\<close> accepts them: decimal digits, with
  single underscores allowed between digits.\<close>

fun int_body_ok :: "string \<Rightarrow> bool" where
  "int_body_ok [] = False"
| "int_body_ok [c] = is_digit c"
| "int_body_ok (c # d # r) =
     (is_digit c \<and> (if d = CHR ''_'' then int_body_ok r else int_body_ok (d # r)))"

definition digits_value :: "string \<Rightarrow> nat" where
  "digits_value s =
     foldl (\<lambda>a c. if c = CHR ''_'' then a else 10 * a + ((of_char c :: nat) - 48)) 0 s"

text \<open>The whitespace that \<open>int()\<close> skips around a number: TAB, LF, VT, FF, CR and
  SPACE, and the two white characters above 127, NEL and NBSP, which it first turns into
  a space. The separators FS, GS, RS and US (0x1C to 0x1F) are white for \<open>strip()\<close>
  but not for \<open>int()\<close>, which raises ValueError on them.\<close>

definition is_int_space :: "char \<Rightarrow> bool" where
  "is_int_space c =
     (c \<in> set [CHR 0x09, CHR 0x0A, CHR 0x0B, CHR 0x0C, CHR 0x0D, CHR 0x20, CHR 0x85, CHR 0xA0])"

definition int_strip :: "string \<Rightarrow> string" where
  "int_strip s = rev (dropWhile is_int_space (rev (dropWhile is_int_space s)))"

text \<open>\<open>sys.int_info.default_max_str_digits\<close>: \<open>int()\<close> raises ValueError for a text
  with more decimal digits than this (Python 3.11 and later, which the setup script
  asks for).\<close>

definition int_max_str_digits :: nat where
  "int_max_str_digits = 4300"

text \<open>\<open>int(s)\<close>: the whitespace around the number is skipped, one sign is allowed, and
  anything else raises ValueError (\<open>None\<close>), as does a number with too many digits.\<close>

definition py_int :: "string \<Rightarrow> int option" where
  "py_int s =
     (let t = int_strip s;
          neg = (t \<noteq> [] \<and> hd t = CHR ''-'');
          body = (if t \<noteq> [] \<and> (hd t = CHR ''+'' \<or> hd t = CHR ''-'') then tl t else t)
      in if int_body_ok body \<and> length (filter is_digit body) \<le> int_max_str_digits
         then Some (if neg then - int (digits_value body) else int (digits_value body))
         else None)"

section \<open>Regular expressions\<close>

text \<open>
  Every pattern of the program is a sequence of single characters (or character
  classes), greedy repetitions \<open>c*\<close> and lazy repetitions \<open>c*?\<close> of a class. \<open>re_match\<close>
  is the backtracking matcher of \<open>re\<close> at one position: it tries the alternatives in the
  order of the engine (a greedy repetition takes one more character first, a lazy one
  tries the rest of the pattern first) and returns the length of the first match found.
\<close>

datatype item = One "char \<Rightarrow> bool" | Many "char \<Rightarrow> bool" | Few "char \<Rightarrow> bool"

fun re_match :: "item list \<Rightarrow> string \<Rightarrow> nat option" where
  "re_match [] s = Some 0"
| "re_match (One p # r) [] = None"
| "re_match (One p # r) (c # cs) = (if p c then map_option Suc (re_match r cs) else None)"
| "re_match (Many p # r) [] = re_match r []"
| "re_match (Many p # r) (c # cs) =
     (if p c then (case re_match (Many p # r) cs of
                     Some n \<Rightarrow> Some (Suc n)
                   | None \<Rightarrow> re_match r (c # cs))
      else re_match r (c # cs))"
| "re_match (Few p # r) [] = re_match r []"
| "re_match (Few p # r) (c # cs) =
     (case re_match r (c # cs) of
        Some n \<Rightarrow> Some n
      | None \<Rightarrow> (if p c then map_option Suc (re_match (Few p # r) cs) else None))"

text \<open>\<open>re.findall(p, s)\<close> for a pattern without groups: the matches from left to right,
  each search starting where the previous match ended (one character further after an
  empty match).\<close>

fun findall :: "item list \<Rightarrow> string \<Rightarrow> string list" where
  "findall p [] = (case re_match p [] of Some n \<Rightarrow> [[]] | None \<Rightarrow> [])"
| "findall p (c # cs) =
     (case re_match p (c # cs) of
        None \<Rightarrow> findall p cs
      | Some n \<Rightarrow> (if n = 0 then [] # findall p cs
                   else take n (c # cs) # findall p (drop n (c # cs))))"

text \<open>\<open>re.sub(p, repl, s)\<close> for a replacement without group references.\<close>

fun re_sub :: "item list \<Rightarrow> string \<Rightarrow> string \<Rightarrow> string" where
  "re_sub p repl [] = (case re_match p [] of Some n \<Rightarrow> repl | None \<Rightarrow> [])"
| "re_sub p repl (c # cs) =
     (case re_match p (c # cs) of
        None \<Rightarrow> c # re_sub p repl cs
      | Some n \<Rightarrow> (if n = 0 then repl @ c # re_sub p repl cs
                   else repl @ re_sub p repl (drop n (c # cs))))"

text \<open>Lower case of an ASCII letter; under \<open>re.IGNORECASE\<close> a letter of the pattern
  matches both cases.\<close>

definition lower_ascii :: "char \<Rightarrow> char" where
  "lower_ascii c =
     (case map_of (zip ''ABCDEFGHIJKLMNOPQRSTUVWXYZ'' ''abcdefghijklmnopqrstuvwxyz'') c of
        Some l \<Rightarrow> l
      | None \<Rightarrow> c)"

definition lit_ci :: "string \<Rightarrow> item list" where
  "lit_ci s = map (\<lambda>c. One (\<lambda>x. lower_ascii x = lower_ascii c)) s"

text \<open>The classes \<open>[^>]\<close>, \<open>.\<close> (with \<open>re.DOTALL\<close>) and \<open>[^"\s>]\<close>.\<close>

definition not_gt :: "char \<Rightarrow> bool" where
  "not_gt c = (c \<noteq> CHR ''>'')"

definition any_char :: "char \<Rightarrow> bool" where
  "any_char c = True"

definition url_tail :: "char \<Rightarrow> bool" where
  "url_tail c = (c \<noteq> CHR 0x22 \<and> \<not> is_space c \<and> c \<noteq> CHR ''>'')"

section \<open>Data model (app/models/creative.py)\<close>

datatype CreativeFormat = RUNWAY | INSTREAM_VIDEO | ENHANCED_PREROLL

datatype ViewabilityPhase = PHASE_1 | PHASE_2

datatype ViewabilityVendor = DOUBLE_VERIFY | IAS

datatype DeviceType = DESKTOP | MOBILE | TABLET | CTV

text \<open>The exceptions the modelled code raises, with the message where the code gives
  one.\<close>

datatype error =
    ValueError string
  | ValidationError string
  | TypeError string
  | FetchError string
  | StatementError string
  | IntegrityError
  | MultipleResultsFound

record ViewabilityConfig =
  phase :: ViewabilityPhase
  vendors :: "ViewabilityVendor list"
  vc_method :: string
  dv_native :: bool
  ias_removed :: bool
  ias_s2s_enabled :: bool
  dsp_seat_id :: "string option"
  pub_id :: "string option"

text \<open>The validator of the field \<open>vendors\<close>; \<open>phase\<close> is declared before
  \<open>vendors\<close>, so it is already in \<open>values\<close>.\<close>

definition validate_vendors_for_phase ::
  "ViewabilityPhase \<Rightarrow> ViewabilityVendor list \<Rightarrow> error + ViewabilityVendor list" where
  "validate_vendors_for_phase ph v =
     (if ph = PHASE_1 then
        (if IAS \<in> set v
         then Inl (ValueError ''Phase 1 should not include IAS (removed to prevent conflicts)'')
         else Inr v)
      else if ph = PHASE_2 then
        (if length v < 2
         then Inl (ValueError ''Phase 2 should include both IAS and DV vendors'')
         else Inr v)
      else Inr v)"

text \<open>Constructing a \<open>ViewabilityConfig\<close> from typed field values: the only check that
  runs is the validator of \<open>vendors\<close>.\<close>

definition mk_ViewabilityConfig ::
  "ViewabilityPhase \<Rightarrow> ViewabilityVendor list \<Rightarrow> string \<Rightarrow> bool \<Rightarrow> bool \<Rightarrow> bool \<Rightarrow>
   string option \<Rightarrow> string option \<Rightarrow> error + ViewabilityConfig" where
  "mk_ViewabilityConfig ph vs m dvn iasr s2s seat pub =
     (case validate_vendors_for_phase ph vs of
        Inl e \<Rightarrow> Inl e
      | Inr v \<Rightarrow> Inr \<lparr>phase = ph, vendors = v, vc_method = m, dv_native = dvn, ias_removed = iasr,
                      ias_s2s_enabled = s2s, dsp_seat_id = seat, pub_id = pub\<rparr>)"

record CreativeConfig =
  cfg_name :: string
  cfg_format :: CreativeFormat
  dimensions :: string
  snippet_url :: string
  device_type :: DeviceType
  duration :: "int option"
  vast_version :: "string option"
  branded_canvas :: bool
  cache_buster :: bool
  viewability_config :: ViewabilityConfig
  amazon_macros :: bool
  click_tracking :: bool

text \<open>The validator of the field \<open>dimensions\<close> of \<open>CreativeConfig\<close>: the text must
  split at \<open>x\<close> into exactly two parts that \<open>int()\<close> accepts.\<close>

definition CreativeConfig_validate_dimensions :: "string \<Rightarrow> error + string" where
  "CreativeConfig_validate_dimensions v =
     (case split_py CHR ''x'' v of
        [width, height] \<Rightarrow>
          (if py_int width \<noteq> None \<and> py_int height \<noteq> None then Inr v
           else Inl (ValueError
             ''Dimensions must be in format 'widthxheight' (e.g., '320x50')''))
      | _ \<Rightarrow> Inl (ValueError
             ''Dimensions must be in format 'widthxheight' (e.g., '320x50')''))"

text \<open>Constructing a \<open>CreativeConfig\<close> from typed field values: the only check that runs
  is the validator of \<open>dimensions\<close>. The viewability configuration is a value that was
  constructed before.\<close>

definition mk_CreativeConfig ::
  "string \<Rightarrow> CreativeFormat \<Rightarrow> string \<Rightarrow> string \<Rightarrow> DeviceType \<Rightarrow> int option \<Rightarrow>
   string option \<Rightarrow> bool \<Rightarrow> bool \<Rightarrow> ViewabilityConfig \<Rightarrow> bool \<Rightarrow> bool \<Rightarrow>
   error + CreativeConfig" where
  "mk_CreativeConfig n f dims url dev dur vv bc cb vc am ct =
     (case CreativeConfig_validate_dimensions dims of
        Inl e \<Rightarrow> Inl e
      | Inr d \<Rightarrow> Inr \<lparr>cfg_name = n, cfg_format = f, dimensions = d, snippet_url = url,
                      device_type = dev, duration = dur, vast_version = vv,
                      branded_canvas = bc, cache_buster = cb, viewability_config = vc,
                      amazon_macros = am, click_tracking = ct\<rparr>)"

text \<open>\<open>processed_at\<close> is a \<open>datetime\<close>, filled by its default factory
  \<open>datetime.utcnow\<close> when the metadata is constructed; it is modelled by the reading of the
  clock.\<close>

record ProcessingMetadata =
  processed_at :: nat
  processing_time_ms :: nat
  original_snippet_size :: nat
  processed_snippet_size :: nat
  tags_removed :: "string list"
  tags_added :: "string list"
  warnings :: "string list"
  phase_applied :: ViewabilityPhase

text \<open>The values of the dictionary that \<open>ProcessingMetadata.dict()\<close> returns: the field
  values as they are, so \<open>processed_at\<close> stays a \<open>datetime\<close> object and
  \<open>phase_applied\<close> stays a member of the enumeration, which is a \<open>str\<close>.\<close>

datatype pyval =
    PyDatetime nat
  | PyNumber nat
  | PyStr string
  | PyStrList "string list"

definition ViewabilityPhase_value :: "ViewabilityPhase \<Rightarrow> string" where
  "ViewabilityPhase_value ph = (case ph of PHASE_1 \<Rightarrow> ''phase_1'' | PHASE_2 \<Rightarrow> ''phase_2'')"

definition ProcessingMetadata_dict :: "ProcessingMetadata \<Rightarrow> (string \<times> pyval) list" where
  "ProcessingMetadata_dict m =
     [(''processed_at'', PyDatetime (processed_at m)),
      (''processing_time_ms'', PyNumber (processing_time_ms m)),
      (''original_snippet_size'', PyNumber (original_snippet_size m)),
      (''processed_snippet_size'', PyNumber (processed_snippet_size m)),
      (''tags_removed'', PyStrList (tags_removed m)),
      (''tags_added'', PyStrList (tags_added m)),
      (''warnings'', PyStrList (warnings m)),
      (''phase_applied'', PyStr (ViewabilityPhase_value (phase_applied m)))]"

text \<open>What \<open>json.dumps\<close>, the serializer of a JSON column when the engine is created
  without \<open>json_serializer\<close> (app/models/database.py), does with a dictionary: it
  raises TypeError when a value is a \<open>datetime\<close>, and numbers, texts and lists of texts
  are written.\<close>

definition json_serializable :: "pyval \<Rightarrow> bool" where
  "json_serializable v = (case v of PyDatetime t \<Rightarrow> False | _ \<Rightarrow> True)"

definition json_dumps :: "(string \<times> pyval) list \<Rightarrow> error + unit" where
  "json_dumps d =
     (if list_all json_serializable (map snd d) then Inr ()
      else Inl (TypeError ''Object of type datetime is not JSON serializable''))"

record ProcessedCreative =
  creative_id :: string
  pc_name :: string
  pc_format :: CreativeFormat
  original_snippet_url :: string
  processed_code :: string
  amazon_dsp_ready :: bool
  creative_type :: string
  pc_viewability_config :: ViewabilityConfig
  processing_metadata :: ProcessingMetadata

text \<open>A row of the table \<open>processed_creatives\<close> (app/models/database.py), with the
  columns that the processor writes and reads; a JSON column holds the typed value that
  its dictionary stands for. The timestamps \<open>created_at\<close> and \<open>updated_at\<close> of the
  row and of \<open>ProcessedCreative\<close>, which no modelled function inspects, are left out.\<close>

record ProcessedCreativeDB =
  db_creative_id :: string
  db_name :: string
  db_format :: CreativeFormat
  db_original_snippet_url :: string
  db_processed_code :: string
  db_amazon_dsp_ready :: bool
  db_creative_type :: string
  db_viewability_config :: ViewabilityConfig
  db_processing_metadata :: ProcessingMetadata
  db_original_config :: CreativeConfig

text \<open>The reply of the snippet provider (app/services/kargo_client.py).\<close>

record KargoSnippetResponse =
  resp_snippet_code :: string
  resp_format :: string
  resp_dimensions :: "string option"
  resp_duration :: "int option"

text \<open>How an f-string renders an optional text and a device type. A member of
  \<open>DeviceType(str, Enum)\<close> is rendered as Python 3.11 and later do (the setup script
  asks for 3.11+); older versions render the bare value.\<close>

definition format_opt :: "string option \<Rightarrow> string" where
  "format_opt v = (case v of None \<Rightarrow> ''None'' | Some s \<Rightarrow> s)"

definition format_device_type :: "DeviceType \<Rightarrow> string" where
  "format_device_type d =
     (case d of DESKTOP \<Rightarrow> ''DeviceType.DESKTOP'' | MOBILE \<Rightarrow> ''DeviceType.MOBILE''
      | TABLET \<Rightarrow> ''DeviceType.TABLET'' | CTV \<Rightarrow> ''DeviceType.CTV'')"

section \<open>SnippetTransformer (app/services/creative_processor.py)\<close>

text \<open>The literal text of \<open>wrap_display_html5_phase1\<close>, cut at its placeholders.\<close>

definition wrap_display_html5_phase1_0 :: string where
  \<open>wrap_display_html5_phase1_0 = nl_join
     ['''',
      ''        <div class="amazon-dsp-display-wrapper" data-phase="phase_1">'',
      ''            <script type="application/json" class="amazon-config">'',
      ''            {'',
      ''                "format": "display_html5",'',
      ''                "creative_name": "'']\<close>

definition wrap_display_html5_phase1_1 :: string where
  \<open>wrap_display_html5_phase1_1 = nl_join
     [''",'',
      ''                "dimensions": "'']\<close>

definition wrap_display_html5_phase1_2 :: string where
  \<open>wrap_display_html5_phase1_2 = nl_join
     [''",'',
      ''                "device_type": "'']\<close>

definition wrap_display_html5_phase1_3 :: string where
  \<open>wrap_display_html5_phase1_3 = nl_join
     [''",'',
      ''                "viewability_vendor": "double_verify",'',
      ''                "viewability_method": "platform_native",'',
      ''                "phase": "phase_1"'',
      ''            }'',
      ''            </script>'',
      ''            '',
      ''            <!-- Original Kargo Creative (IAS removed, DV preserved) -->'',
      ''            '']\<close>

definition wrap_display_html5_phase1_4 :: string where
  \<open>wrap_display_html5_phase1_4 = nl_join
     ['''',
      ''            '',
      ''            <script>'',
      ''                // Amazon DSP integration'',
      ''                window.amazonDSPConfig = {'',
      ''                    clickUrl: '${AMAZON_CLICK_URL}','',
      ''                    impressionUrl: '${AMAZON_IMPRESSION_URL}','',
      ''                    campaignId: '${AMAZON_CAMPAIGN_ID}','',
      ''                    creativeId: '${AMAZON_CREATIVE_ID}','',
      ''                    viewabilityMethod: 'platform_native'' @ [CHR 0x27],
      ''                };'',
      ''                '',
      ''                // DV viewability handled by Amazon DSP platform'',
      ''                // No additional viewability pixels needed'',
      ''                console.log('Amazon DSP Phase 1 creative loaded:', window.amazonDSPConfig);'',
      ''            </script>'',
      ''        </div>'',
      ''        '']\<close>

text \<open>The literal text of \<open>wrap_display_html5_phase2\<close>, cut at its placeholders.\<close>

definition wrap_display_html5_phase2_0 :: string where
  \<open>wrap_display_html5_phase2_0 = nl_join
     ['''',
      ''        <div class="amazon-dsp-display-wrapper" data-phase="phase_2">'',
      ''            <script type="application/json" class="amazon-config">'',
      ''            {'',
      ''                "format": "display_html5",'',
      ''                "creative_name": "'']\<close>

definition wrap_display_html5_phase2_1 :: string where
  \<open>wrap_display_html5_phase2_1 = nl_join
     [''",'',
      ''                "dimensions": "'']\<close>

definition wrap_display_html5_phase2_2 :: string where
  \<open>wrap_display_html5_phase2_2 = nl_join
     [''",'',
      ''                "device_type": "'']\<close>

definition wrap_display_html5_phase2_3 :: string where
  \<open>wrap_display_html5_phase2_3 = nl_join
     [''",'',
      ''                "viewability_vendors": ["ias", "double_verify"],'',
      ''                "viewability_method": "s2s_plus_native",'',
      ''                "phase": "phase_2",'',
      ''                "ias_s2s_enabled": true,'',
      ''                "dsp_seat_id": "'']\<close>

definition wrap_display_html5_phase2_4 :: string where
  \<open>wrap_display_html5_phase2_4 = nl_join
     [''",'',
      ''                "pub_id": "'']\<close>

definition wrap_display_html5_phase2_5 :: string where
  \<open>wrap_display_html5_phase2_5 = nl_join
     [''"'',
      ''            }'',
      ''            </script>'',
      ''            '',
      ''            <!-- IAS S2S Configuration (no client-side tags needed) -->'',
      ''            <script type="application/json" class="ias-s2s-config">'',
      ''            {'',
      ''                "seat_id": "'']\<close>

definition wrap_display_html5_phase2_6 :: string where
  \<open>wrap_display_html5_phase2_6 = nl_join
     [''",'',
      ''                "publisher_id": "'']\<close>

definition wrap_display_html5_phase2_7 :: string where
  \<open>wrap_display_html5_phase2_7 = nl_join
     [''",'',
      ''                "campaign_id": "${AMAZON_CAMPAIGN_ID}",'',
      ''                "creative_id": "${AMAZON_CREATIVE_ID}",'',
      ''                "measurement_method": "server_to_server"'',
      ''            }'',
      ''            </script>'',
      ''            '',
      ''            <!-- Original Kargo Creative (IAS removed, DV preserved) -->'',
      ''            '']\<close>

definition wrap_display_html5_phase2_8 :: string where
  \<open>wrap_display_html5_phase2_8 = nl_join
     ['''',
      ''            '',
      ''            <script>'',
      ''                // Amazon DSP integration with dual vendor support'',
      ''                window.amazonDSPConfig = {'',
      ''                    clickUrl: '${AMAZON_CLICK_URL}','',
      ''                    impressionUrl: '${AMAZON_IMPRESSION_URL}','',
      ''                    campaignId: '${AMAZON_CAMPAIGN_ID}','',
      ''                    creativeId: '${AMAZON_CREATIVE_ID}','',
      ''                    viewabilityMethod: 's2s_plus_native','',
      ''                    vendors: {'',
      ''                        ias: 'server_side','',
      ''                        dv: 'platform_native'' @ [CHR 0x27],
      ''                    }'',
      ''                };'',
      ''                '',
      ''                console.log('Amazon DSP Phase 2 creative loaded:', window.amazonDSPConfig);'',
      ''            </script>'',
      ''        </div>'',
      ''        '']\<close>

text \<open>The literal text of \<open>wrap_vast_phase1_head\<close>, cut at its placeholders.\<close>

definition wrap_vast_phase1_head_0 :: string where
  \<open>wrap_vast_phase1_head_0 = nl_join
     [''<?xml version="1.0" encoding="UTF-8"?>'',
      ''        <VAST version="3.0">'',
      ''            <Ad id="'']\<close>

definition wrap_vast_phase1_head_1 :: string where
  \<open>wrap_vast_phase1_head_1 = nl_join
     [''">'',
      ''                <Wrapper>'',
      ''                    <AdSystem>Kargo Amazon DSP Phase 1</AdSystem>'',
      ''                    <VASTAdTagURI>'',
      ''                        <![CDATA['']\<close>

definition wrap_vast_phase1_head_2 :: string where
  \<open>wrap_vast_phase1_head_2 = nl_join
     [''?cb=${AMAZON_CACHEBUSTER}]]>'',
      ''                    </VASTAdTagURI>'',
      ''                    '',
      ''                    <!-- Amazon DSP Impression Tracking -->'',
      ''                    <Impression>'',
      ''                        <![CDATA[${AMAZON_IMPRESSION_URL}]]>'',
      ''                    </Impression>'',
      ''                    '',
      ''                    <!-- DV Viewability Tracking (wrapped within VAST) -->'',
      ''                    <Impression>'',
      ''                        <![CDATA[https://tps.doubleverify.com/visit.jpg?ctx=818052&cmp=${AMAZON_CAMPAIGN_ID}&sid=${AMAZON_SITE_ID}&plc=${AMAZON_PLACEMENT_ID}&crt=${AMAZON_CREATIVE_ID}&tagtype=video&dvtagver=6.1.src&cb=${AMAZON_CACHEBUSTER}]]>'',
      ''                    </Impression>'',
      ''                    '',
      ''                    <Creatives>'',
      ''                        <Creative>'',
      ''                            <Linear>'',
      ''                                <Duration>00:00:'']\<close>

definition wrap_vast_phase1_head_3 :: string where
  \<open>wrap_vast_phase1_head_3 = nl_join
     [''</Duration>'',
      ''                                '',
      ''                                <!-- DV Video Tracking Events -->'',
      ''                                <TrackingEvents>'',
      ''                                    <Tracking event="start">'',
      ''                                        <![CDATA[https://tps.doubleverify.com/event.jpg?ctx=818052&cmp=${AMAZON_CAMPAIGN_ID}&evt=start&cb=${AMAZON_CACHEBUSTER}]]>'',
      ''                                    </Tracking>'',
      ''                                    <Tracking event="firstQuartile">'',
      ''                                        <![CDATA[https://tps.doubleverify.com/event.jpg?ctx=818052&cmp=${AMAZON_CAMPAIGN_ID}&evt=25&cb=${AMAZON_CACHEBUSTER}]]>'',
      ''                                    </Tracking>'',
      ''                                    <Tracking event="midpoint">'',
      ''                                        <![CDATA[https://tps.doubleverify.com/event.jpg?ctx=818052&cmp=${AMAZON_CAMPAIGN_ID}&evt=50&cb=${AMAZON_CACHEBUSTER}]]>'',
      ''                                    </Tracking>'',
      ''                                    <Tracking event="thirdQuartile">'',
      ''                                        <![CDATA[https://tps.doubleverify.com/event.jpg?ctx=818052&cmp=${AMAZON_CAMPAIGN_ID}&evt=75&cb=${AMAZON_CACHEBUSTER}]]>'',
      ''                                    </Tracking>'',
      ''                                    <Tracking event="complete">'',
      ''                                        <![CDATA[https://tps.doubleverify.com/event.jpg?ctx=818052&cmp=${AMAZON_CAMPAIGN_ID}&evt=complete&cb=${AMAZON_CACHEBUSTER}]]>'',
      ''                                    </Tracking>'',
      ''                                </TrackingEvents>'',
      ''                                '',
      ''                                <VideoClicks>'',
      ''                                    <ClickThrough>'',
      ''                                        <![CDATA[${AMAZON_CLICK_URL}]]>'',
      ''                                    </ClickThrough>'',
      ''                                </VideoClicks>'',
      ''                            </Linear>'',
      ''                            '',
      ''                            <!-- Branded Canvas Companion (if enabled) -->'']\<close>

text \<open>The literal text of \<open>wrap_vast_phase1_canvas\<close>, cut at its placeholders.\<close>

definition wrap_vast_phase1_canvas_0 :: string where
  \<open>wrap_vast_phase1_canvas_0 = nl_join
     ['''',
      ''                            <CompanionAds>'',
      ''                                <Companion width="'']\<close>

definition wrap_vast_phase1_canvas_1 :: string where
  \<open>wrap_vast_phase1_canvas_1 = nl_join
     [''" height="'']\<close>

definition wrap_vast_phase1_canvas_2 :: string where
  \<open>wrap_vast_phase1_canvas_2 = nl_join
     [''">'',
      ''                                    <StaticResource creativeType="text/html">'',
      ''                                        <![CDATA['',
      ''                                        <div class="branded-canvas-phase1" style="width: '']\<close>

definition wrap_vast_phase1_canvas_3 :: string where
  \<open>wrap_vast_phase1_canvas_3 = nl_join
     [''px; height: '']\<close>

definition wrap_vast_phase1_canvas_4 :: string where
  \<open>wrap_vast_phase1_canvas_4 = nl_join
     [''px; background: linear-gradient(45deg, #1e3c72, #2a5298); display: flex; align-items: center; justify-content: center; color: white; font-family: Arial, sans-serif; cursor: pointer;" onclick="window.open('${AMAZON_CLICK_URL}', '_blank');">'',
      ''                                            <div style="text-align: center;">'',
      ''                                                <div style="font-size: 12px; font-weight: bold;">Premium Brand</div>'',
      ''                                                <div style="font-size: 9px;">Discover More</div>'',
      ''                                            </div>'',
      ''                                        </div>'',
      ''                                        ]]>'',
      ''                                    </StaticResource>'',
      ''                                    <CompanionClickThrough>'',
      ''                                        <![CDATA[${AMAZON_CLICK_URL}]]>'',
      ''                                    </CompanionClickThrough>'',
      ''                                </Companion>'',
      ''                            </CompanionAds>'']\<close>

text \<open>The literal text of \<open>wrap_vast_phase1_tail\<close>, cut at its placeholders.\<close>

definition wrap_vast_phase1_tail_0 :: string where
  \<open>wrap_vast_phase1_tail_0 = nl_join
     ['''',
      ''                        </Creative>'',
      ''                    </Creatives>'',
      ''                    '',
      ''                    <Extensions>'',
      ''                        <Extension type="Amazon_DSP">'',
      ''                            <AmazonData>'',
      ''                                <Phase>phase_1</Phase>'',
      ''                                <ViewabilityMethod>dv_wrapped</ViewabilityMethod>'',
      ''                                <CreativeName>'']\<close>

definition wrap_vast_phase1_tail_1 :: string where
  \<open>wrap_vast_phase1_tail_1 = nl_join
     [''</CreativeName>'',
      ''                            </AmazonData>'',
      ''                        </Extension>'',
      ''                    </Extensions>'',
      ''                </Wrapper>'',
      ''            </Ad>'',
      ''        </VAST>'']\<close>

text \<open>The literal text of \<open>wrap_vast_phase2_head\<close>, cut at its placeholders.\<close>

definition wrap_vast_phase2_head_0 :: string where
  \<open>wrap_vast_phase2_head_0 = nl_join
     [''<?xml version="1.0" encoding="UTF-8"?>'',
      ''        <VAST version="3.0">'',
      ''            <Ad id="'']\<close>

definition wrap_vast_phase2_head_1 :: string where
  \<open>wrap_vast_phase2_head_1 = nl_join
     [''">'',
      ''                <Wrapper>'',
      ''                    <AdSystem>Kargo Amazon DSP Phase 2</AdSystem>'',
      ''                    <VASTAdTagURI>'',
      ''                        <![CDATA['']\<close>

definition wrap_vast_phase2_head_2 :: string where
  \<open>wrap_vast_phase2_head_2 = nl_join
     [''?cb=${AMAZON_CACHEBUSTER}]]>'',
      ''                    </VASTAdTagURI>'',
      ''                    '',
      ''                    <!-- Amazon DSP Impression Tracking -->'',
      ''                    <Impression>'',
      ''                        <![CDATA[${AMAZON_IMPRESSION_URL}]]>'',
      ''                    </Impression>'',
      ''                    '',
      ''                    <!-- DV Viewability Tracking (wrapped within VAST) -->'',
      ''                    <Impression>'',
      ''                        <![CDATA[https://tps.doubleverify.com/visit.jpg?ctx=818052&cmp=${AMAZON_CAMPAIGN_ID}&sid=${AMAZON_SITE_ID}&plc=${AMAZON_PLACEMENT_ID}&crt=${AMAZON_CREATIVE_ID}&tagtype=video&dvtagver=6.1.src&cb=${AMAZON_CACHEBUSTER}]]>'',
      ''                    </Impression>'',
      ''                    '',
      ''                    <Creatives>'',
      ''                        <Creative>'',
      ''                            <Linear>'',
      ''                                <Duration>00:00:'']\<close>

definition wrap_vast_phase2_head_3 :: string where
  \<open>wrap_vast_phase2_head_3 = nl_join
     [''</Duration>'',
      ''                                '',
      ''                                <!-- DV Video Tracking Events -->'',
      ''                                <TrackingEvents>'',
      ''                                    <Tracking event="start">'',
      ''                                        <![CDATA[https://tps.doubleverify.com/event.jpg?ctx=818052&cmp=${AMAZON_CAMPAIGN_ID}&evt=start&cb=${AMAZON_CACHEBUSTER}]]>'',
      ''                                    </Tracking>'',
      ''                                    <Tracking event="firstQuartile">'',
      ''                                        <![CDATA[https://tps.doubleverify.com/event.jpg?ctx=818052&cmp=${AMAZON_CAMPAIGN_ID}&evt=25&cb=${AMAZON_CACHEBUSTER}]]>'',
      ''                                    </Tracking>'',
      ''                                    <Tracking event="midpoint">'',
      ''                                        <![CDATA[https://tps.doubleverify.com/event.jpg?ctx=818052&cmp=${AMAZON_CAMPAIGN_ID}&evt=50&cb=${AMAZON_CACHEBUSTER}]]>'',
      ''                                    </Tracking>'',
      ''                                    <Tracking event="thirdQuartile">'',
      ''                                        <![CDATA[https://tps.doubleverify.com/event.jpg?ctx=818052&cmp=${AMAZON_CAMPAIGN_ID}&evt=75&cb=${AMAZON_CACHEBUSTER}]]>'',
      ''                                    </Tracking>'',
      ''                                    <Tracking event="complete">'',
      ''                                        <![CDATA[https://tps.doubleverify.com/event.jpg?ctx=818052&cmp=${AMAZON_CAMPAIGN_ID}&evt=complete&cb=${AMAZON_CACHEBUSTER}]]>'',
      ''                                    </Tracking>'',
      ''                                </TrackingEvents>'',
      ''                                '',
      ''                                <VideoClicks>'',
      ''                                    <ClickThrough>'',
      ''                                        <![CDATA[${AMAZON_CLICK_URL}]]>'',
      ''                                    </ClickThrough>'',
      ''                                </VideoClicks>'',
      ''                            </Linear>'',
      ''                            '',
      ''                            <!-- Branded Canvas Companion (if enabled) -->'']\<close>

text \<open>The literal text of \<open>wrap_vast_phase2_canvas\<close>, cut at its placeholders.\<close>

definition wrap_vast_phase2_canvas_0 :: string where
  \<open>wrap_vast_phase2_canvas_0 = nl_join
     ['''',
      ''                            <CompanionAds>'',
      ''                                <Companion width="'']\<close>

definition wrap_vast_phase2_canvas_1 :: string where
  \<open>wrap_vast_phase2_canvas_1 = nl_join
     [''" height="'']\<close>

definition wrap_vast_phase2_canvas_2 :: string where
  \<open>wrap_vast_phase2_canvas_2 = nl_join
     [''">'',
      ''                                    <StaticResource creativeType="text/html">'',
      ''                                        <![CDATA['',
      ''                                        <div class="branded-canvas-phase2" style="width: '']\<close>

definition wrap_vast_phase2_canvas_3 :: string where
  \<open>wrap_vast_phase2_canvas_3 = nl_join
     [''px; height: '']\<close>

definition wrap_vast_phase2_canvas_4 :: string where
  \<open>wrap_vast_phase2_canvas_4 = nl_join
     [''px; background: linear-gradient(45deg, #1e3c72, #2a5298); display: flex; align-items: center; justify-content: center; color: white; font-family: Arial, sans-serif; cursor: pointer;" onclick="window.open('${AMAZON_CLICK_URL}', '_blank');">'',
      ''                                            <div style="text-align: center;">'',
      ''                                                <div style="font-size: 12px; font-weight: bold;">Premium Brand</div>'',
      ''                                                <div style="font-size: 9px;">Discover More</div>'',
      ''                                            </div>'',
      ''                                        </div>'',
      ''                                        ]]>'',
      ''                                    </StaticResource>'',
      ''                                    <CompanionClickThrough>'',
      ''                                        <![CDATA[${AMAZON_CLICK_URL}]]>'',
      ''                                    </CompanionClickThrough>'',
      ''                                </Companion>'',
      ''                            </CompanionAds>'']\<close>

text \<open>The literal text of \<open>wrap_vast_phase2_tail\<close>, cut at its placeholders.\<close>

definition wrap_vast_phase2_tail_0 :: string where
  \<open>wrap_vast_phase2_tail_0 = nl_join
     ['''',
      ''                        </Creative>'',
      ''                    </Creatives>'',
      ''                    '',
      ''                    <Extensions>'',
      ''                        <!-- IAS S2S Configuration -->'',
      ''                        <Extension type="IAS_S2S">'',
      ''                            <IASData>'',
      ''                                <SeatId>'']\<close>

definition wrap_vast_phase2_tail_1 :: string where
  \<open>wrap_vast_phase2_tail_1 = nl_join
     [''</SeatId>'',
      ''                                <PublisherId>'']\<close>

definition wrap_vast_phase2_tail_2 :: string where
  \<open>wrap_vast_phase2_tail_2 = nl_join
     [''</PublisherId>'',
      ''                                <MeasurementType>server_to_server</MeasurementType>'',
      ''                                <CampaignId>${AMAZON_CAMPAIGN_ID}</CampaignId>'',
      ''                                <CreativeId>${AMAZON_CREATIVE_ID}</CreativeId>'',
      ''                            </IASData>'',
      ''                        </Extension>'',
      ''                        '',
      ''                        <Extension type="Amazon_DSP">'',
      ''                            <AmazonData>'',
      ''                                <Phase>phase_2</Phase>'',
      ''                                <ViewabilityMethod>ias_s2s_plus_dv_wrapped</ViewabilityMethod>'',
      ''                                <CreativeName>'']\<close>

definition wrap_vast_phase2_tail_3 :: string where
  \<open>wrap_vast_phase2_tail_3 = nl_join
     [''</CreativeName>'',
      ''                                <DualVendorEnabled>true</DualVendorEnabled>'',
      ''                            </AmazonData>'',
      ''                        </Extension>'',
      ''                    </Extensions>'',
      ''                </Wrapper>'',
      ''            </Ad>'',
      ''        </VAST>'']\<close>
subsection \<open>Tag patterns and macro table\<close>

definition IAS_PATTERNS :: "item list list" where
  "IAS_PATTERNS =
    [ lit_ci ''<img'' @ [Many not_gt] @ lit_ci ''adsafeprotected'' @ [Many not_gt] @ lit_ci ''>'',
      lit_ci ''<script'' @ [Many not_gt] @ lit_ci ''adsafeprotected'' @ [Many not_gt]
        @ lit_ci ''>'' @ [Few any_char] @ lit_ci ''</script>'',
      lit_ci ''<script'' @ [Many not_gt] @ lit_ci ''fw.adsafeprotected'' @ [Many not_gt]
        @ lit_ci ''>'' @ [Few any_char] @ lit_ci ''</script>'',
      lit_ci ''pixel.adsafeprotected.com'' @ [Many url_tail],
      lit_ci ''fw.adsafeprotected.com'' @ [Many url_tail] ]"

text \<open>The pattern \<open>\n\s*\n\<close> of the whitespace clean-up (no flags).\<close>

definition blank_lines :: "item list" where
  "blank_lines = [One (\<lambda>c. c = CHR 0x0A), Many is_space, One (\<lambda>c. c = CHR 0x0A)]"

text \<open>The dictionary \<open>AMAZON_MACROS\<close> in insertion order, which is the order in which
  \<open>items()\<close> yields it.\<close>

definition AMAZON_MACROS :: "(string \<times> string) list" where
  "AMAZON_MACROS =
    [ (''${CLICK_URL}'', ''${AMAZON_CLICK_URL}''),
      (''${IMPRESSION_URL}'', ''${AMAZON_IMPRESSION_URL}''),
      (''${CAMPAIGN_ID}'', ''${AMAZON_CAMPAIGN_ID}''),
      (''${CREATIVE_ID}'', ''${AMAZON_CREATIVE_ID}''),
      (''${PLACEMENT_ID}'', ''${AMAZON_PLACEMENT_ID}''),
      (''${SITE_ID}'', ''${AMAZON_SITE_ID}''),
      (''${CACHEBUSTER}'', ''${AMAZON_CACHEBUSTER}''),
      (''${GDPR}'', ''${AMAZON_GDPR}''),
      (''${GDPR_CONSENT}'', ''${AMAZON_GDPR_CONSENT}'') ]"

subsection \<open>Tag removal, macros, cache buster\<close>

text \<open>One round of the loop of \<open>remove_ias_tags\<close>: the state is the cleaned code and
  the removed tags so far.\<close>

definition remove_step :: "string \<times> string list \<Rightarrow> item list \<Rightarrow> string \<times> string list" where
  "remove_step acc pattern =
     (let matches = findall pattern (fst acc)
      in if matches \<noteq> [] then (re_sub pattern [] (fst acc), snd acc @ matches) else acc)"

definition remove_ias_tags :: "string \<Rightarrow> string \<times> string list" where
  "remove_ias_tags snippet_code =
     (let r = foldl remove_step (snippet_code, []) IAS_PATTERNS
      in (strip_py (re_sub blank_lines [CHR 0x0A] (fst r)), snd r))"

definition inject_amazon_macros :: "string \<Rightarrow> string" where
  "inject_amazon_macros snippet_code =
     foldl (\<lambda>processed_code (generic_macro, amazon_macro).
              replace_py generic_macro amazon_macro processed_code)
           snippet_code AMAZON_MACROS"

text \<open>\<open>generate_cache_buster\<close> reads the clock; the model takes the time in
  milliseconds as an argument.\<close>

definition generate_cache_buster :: "nat \<Rightarrow> string" where
  "generate_cache_buster now_ms = str_nat now_ms"

definition inject_cache_buster :: "nat \<Rightarrow> string \<Rightarrow> string option \<Rightarrow> string" where
  "inject_cache_buster now_ms snippet_code cache_buster_arg =
     (let cb = (case cache_buster_arg of None \<Rightarrow> generate_cache_buster now_ms | Some t \<Rightarrow> t)
      in replace_py ''${AMAZON_CACHEBUSTER}'' cb (replace_py ''${CACHEBUSTER}'' cb snippet_code))"

subsection \<open>Wrappers\<close>

definition wrap_display_html5_phase1 :: "string \<Rightarrow> CreativeConfig \<Rightarrow> string" where
  "wrap_display_html5_phase1 code config =
     strip_py (wrap_display_html5_phase1_0 @ cfg_name config
       @ wrap_display_html5_phase1_1 @ dimensions config
       @ wrap_display_html5_phase1_2 @ format_device_type (device_type config)
       @ wrap_display_html5_phase1_3 @ code
       @ wrap_display_html5_phase1_4)"

definition wrap_display_html5_phase2 :: "string \<Rightarrow> CreativeConfig \<Rightarrow> string" where
  "wrap_display_html5_phase2 code config =
     strip_py (wrap_display_html5_phase2_0 @ cfg_name config
       @ wrap_display_html5_phase2_1 @ dimensions config
       @ wrap_display_html5_phase2_2 @ format_device_type (device_type config)
       @ wrap_display_html5_phase2_3 @ format_opt (dsp_seat_id (viewability_config config))
       @ wrap_display_html5_phase2_4 @ format_opt (pub_id (viewability_config config))
       @ wrap_display_html5_phase2_5 @ format_opt (dsp_seat_id (viewability_config config))
       @ wrap_display_html5_phase2_6 @ format_opt (pub_id (viewability_config config))
       @ wrap_display_html5_phase2_7 @ code
       @ wrap_display_html5_phase2_8)"

text \<open>The VAST wrappers do not use the snippet code. Formatting the duration with
  \<open>:02d\<close> raises TypeError when it is \<open>None\<close>; unpacking \<open>dimensions.split('x')\<close> into
  two names raises ValueError unless there are exactly two parts.\<close>

text \<open>The ValueError of unpacking a list of \<open>n\<close> parts into two names.\<close>

definition unpack_error :: "nat \<Rightarrow> error" where
  "unpack_error n =
     (if n < 2
      then ValueError (''not enough values to unpack (expected 2, got '' @ str_nat n @ '')'')
      else ValueError ''too many values to unpack (expected 2)'')"

definition wrap_vast_phase1 :: "string \<Rightarrow> CreativeConfig \<Rightarrow> error + string" where
  "wrap_vast_phase1 code config =
     (case duration config of
        None \<Rightarrow> Inl (TypeError ''unsupported format string passed to NoneType.__format__'')
      | Some d \<Rightarrow>
          (let ad_id = cfg_name config @ ''_phase1'';
               vast_wrapper = wrap_vast_phase1_head_0 @ ad_id
                 @ wrap_vast_phase1_head_1 @ snippet_url config
                 @ wrap_vast_phase1_head_2 @ format_02d d
                 @ wrap_vast_phase1_head_3;
               tail = wrap_vast_phase1_tail_0 @ cfg_name config @ wrap_vast_phase1_tail_1
           in if branded_canvas config then
                (case split_py CHR ''x'' (dimensions config) of
                   [canvas_width, canvas_height] \<Rightarrow>
                     Inr (strip_py (vast_wrapper
                       @ wrap_vast_phase1_canvas_0 @ canvas_width
                       @ wrap_vast_phase1_canvas_1 @ canvas_height
                       @ wrap_vast_phase1_canvas_2 @ canvas_width
                       @ wrap_vast_phase1_canvas_3 @ canvas_height
                       @ wrap_vast_phase1_canvas_4 @ tail))
                 | parts \<Rightarrow> Inl (unpack_error (length parts)))
              else Inr (strip_py (vast_wrapper @ tail))))"

definition wrap_vast_phase2 :: "string \<Rightarrow> CreativeConfig \<Rightarrow> error + string" where
  "wrap_vast_phase2 code config =
     (case duration config of
        None \<Rightarrow> Inl (TypeError ''unsupported format string passed to NoneType.__format__'')
      | Some d \<Rightarrow>
          (let ad_id = cfg_name config @ ''_phase2'';
               vast_wrapper = wrap_vast_phase2_head_0 @ ad_id
                 @ wrap_vast_phase2_head_1 @ snippet_url config
                 @ wrap_vast_phase2_head_2 @ format_02d d
                 @ wrap_vast_phase2_head_3;
               tail = wrap_vast_phase2_tail_0 @ format_opt (dsp_seat_id (viewability_config config))
                 @ wrap_vast_phase2_tail_1 @ format_opt (pub_id (viewability_config config))
                 @ wrap_vast_phase2_tail_2 @ cfg_name config
                 @ wrap_vast_phase2_tail_3
           in if branded_canvas config then
                (case split_py CHR ''x'' (dimensions config) of
                   [canvas_width, canvas_height] \<Rightarrow>
                     Inr (strip_py (vast_wrapper
                       @ wrap_vast_phase2_canvas_0 @ canvas_width
                       @ wrap_vast_phase2_canvas_1 @ canvas_height
                       @ wrap_vast_phase2_canvas_2 @ canvas_width
                       @ wrap_vast_phase2_canvas_3 @ canvas_height
                       @ wrap_vast_phase2_canvas_4 @ tail))
                 | parts \<Rightarrow> Inl (unpack_error (length parts)))
              else Inr (strip_py (vast_wrapper @ tail))))"

section \<open>CreativeValidator (app/utils/validation.py)\<close>

definition IAS_TAG_PATTERNS :: "item list list" where
  "IAS_TAG_PATTERNS =
    [ lit_ci ''<img'' @ [Many not_gt] @ lit_ci ''adsafeprotected'' @ [Many not_gt] @ lit_ci ''>'',
      lit_ci ''<script'' @ [Many not_gt] @ lit_ci ''ias'' @ [Many not_gt] @ lit_ci ''>''
        @ [Few any_char] @ lit_ci ''</script>'',
      lit_ci ''fw.adsafeprotected.com'',
      lit_ci ''pixel.adsafeprotected.com'',
      lit_ci ''ias.tracking'' ]"

definition DV_TAG_PATTERNS :: "item list list" where
  "DV_TAG_PATTERNS =
    [ lit_ci ''<img'' @ [Many not_gt] @ lit_ci ''doubleverify'' @ [Many not_gt] @ lit_ci ''>'',
      lit_ci ''<script'' @ [Many not_gt] @ lit_ci ''dvtp_src'' @ [Many not_gt] @ lit_ci ''>''
        @ [Few any_char] @ lit_ci ''</script>'',
      lit_ci ''<script'' @ [Many not_gt] @ lit_ci ''doubleVerify'' @ [Many not_gt] @ lit_ci ''>''
        @ [Few any_char] @ lit_ci ''</script>'',
      lit_ci ''tps.doubleverify.com'' ]"

text \<open>\<open>urlparse\<close> belongs to the standard library and is an argument of the model: it
  gives the scheme and the network location of a URL, or \<open>None\<close> where it raises.\<close>

type_synonym urlparse = "string \<Rightarrow> (string \<times> string) option"

definition validate_snippet_url :: "urlparse \<Rightarrow> string \<Rightarrow> bool" where
  "validate_snippet_url parse url =
     (case parse url of
        None \<Rightarrow> False
      | Some (scheme, netloc) \<Rightarrow>
          (if scheme = [] \<or> netloc = [] then False
           else if \<not> contains ''snippet.kargo.com'' netloc then False
           else True))"

definition validate_dimensions :: "string \<Rightarrow> error + int \<times> int" where
  "validate_dimensions dims =
     (if \<not> contains ''x'' dims
      then Inl (ValidationError (''Dimensions must be in format 'widthxheight'' @ [CHR 0x27]))
      else (let (width_str, height_str) = split_first CHR ''x'' dims
            in case py_int width_str of
                 None \<Rightarrow> Inl (ValidationError ''Width and height must be valid numbers'')
               | Some width \<Rightarrow>
                   (case py_int height_str of
                      None \<Rightarrow> Inl (ValidationError ''Width and height must be valid numbers'')
                    | Some height \<Rightarrow>
                        (if width \<le> 0 \<or> height \<le> 0
                         then Inl (ValidationError ''Width and height must be positive numbers'')
                         else Inr (width, height)))))"

definition validate_creative_format_dimensions ::
  "CreativeFormat \<Rightarrow> string \<Rightarrow> error + bool" where
  "validate_creative_format_dimensions fmt dims =
     (case validate_dimensions dims of
        Inl e \<Rightarrow> Inl e
      | Inr (width, height) \<Rightarrow>
          (if fmt = RUNWAY
           then Inr ((width, height) \<in> set [(320, 50), (728, 90), (300, 250), (160, 600), (970, 250)])
           else if fmt \<in> set [INSTREAM_VIDEO, ENHANCED_PREROLL]
           then Inr ((width, height) \<in> set [(300, 50), (320, 50), (300, 250), (728, 90)])
           else Inr True))"

definition detect_ias_tags :: "string \<Rightarrow> string list" where
  "detect_ias_tags creative_code = concat (map (\<lambda>p. findall p creative_code) IAS_TAG_PATTERNS)"

definition detect_dv_tags :: "string \<Rightarrow> string list" where
  "detect_dv_tags creative_code = concat (map (\<lambda>p. findall p creative_code) DV_TAG_PATTERNS)"

definition validate_phase_configuration ::
  "ViewabilityPhase \<Rightarrow> ViewabilityVendor list \<Rightarrow> string \<Rightarrow> string list" where
  "validate_phase_configuration ph vs creative_code =
     (let ias_tags = detect_ias_tags creative_code;
          dv_tags = detect_dv_tags creative_code
      in if ph = PHASE_1 then
           (if IAS \<in> set vs then [''Phase 1 should not include IAS vendor''] else [])
           @ (if ias_tags \<noteq> []
              then [''Phase 1 creative contains IAS tags that should be removed: ''
                    @ str_nat (length ias_tags) @ '' found'']
              else [])
           @ (if DOUBLE_VERIFY \<in> set vs \<and> dv_tags = []
              then [''Phase 1 configured for DV but no DV tags found in creative'']
              else [])
         else if ph = PHASE_2 then
           (if IAS \<notin> set vs
            then [''Phase 2 should include IAS vendor for S2S integration''] else [])
           @ (if DOUBLE_VERIFY \<notin> set vs
              then [''Phase 2 should include DoubleVerify vendor''] else [])
           @ (if length ias_tags > 2
              then [''Phase 2 creative has excessive IAS tags ('' @ str_nat (length ias_tags)
                    @ ''), S2S should minimize client-side tags'']
              else [])
         else [])"

definition validate_vast_structure :: "string \<Rightarrow> string list" where
  "validate_vast_structure vast_code =
     (if \<not> contains ''<VAST'' vast_code then [''Missing VAST root element''] else [])
     @ (if \<not> contains ''<Ad>'' vast_code \<and> \<not> contains ''<Ad '' vast_code
        then [''Missing Ad element''] else [])
     @ (if \<not> contains ''<Creative>'' vast_code \<and> \<not> contains ''<Creative '' vast_code
        then [''Missing Creative element''] else [])
     @ (if \<not> contains ''<TrackingEvents>'' vast_code
        then [''Missing TrackingEvents element''] else [])
     @ concat (map (\<lambda>event.
          if \<not> contains (''event='' @ [CHR 0x22] @ event @ [CHR 0x22]) vast_code
          then [''Missing required tracking event: '' @ event] else [])
        [''start'', ''complete''])"

section \<open>CreativeProcessor (app/services/creative_processor.py)\<close>

text \<open>
  What the processor takes from outside: the URL parser, the snippet provider (the reply
  to a fetch, or the exception it raises), the clock read by the cache buster, the
  measured processing time, the reading of \<open>datetime.utcnow\<close>, and the identifier that
  \<open>uuid4\<close> returns. The state is the table of processed creatives, in insertion order,
  and the list of the URLs fetched from the snippet provider. Logging and metrics are
  left out.
\<close>

record env =
  env_urlparse :: urlparse
  get_snippet :: "string \<Rightarrow> error + KargoSnippetResponse"
  now_ms :: nat
  elapsed_ms :: nat
  utcnow :: nat
  uuid4 :: string

record processor_state =
  db :: "ProcessedCreativeDB list"
  fetched :: "string list"

text \<open>\<open>_validate_config\<close>: the URL check raises ValueError; the check of the dimensions
  against the format only logs its result, but it parses the dimensions first, and that
  raises ValidationError; the warnings of the phase check are only logged.\<close>

definition validate_config :: "env \<Rightarrow> CreativeConfig \<Rightarrow> error + unit" where
  "validate_config e config =
     (if \<not> validate_snippet_url (env_urlparse e) (snippet_url config)
      then Inl (ValueError (''Invalid snippet URL: '' @ snippet_url config))
      else (case validate_creative_format_dimensions (cfg_format config) (dimensions config) of
              Inl err \<Rightarrow> Inl err
            | Inr usual \<Rightarrow> Inr ()))"

text \<open>\<open>_transform_snippet\<close>, in three steps: the code before wrapping, the wrapper
  chosen by format and phase, and the metadata.\<close>

definition prepare_code :: "env \<Rightarrow> string \<Rightarrow> CreativeConfig \<Rightarrow> string \<times> string list" where
  "prepare_code e original_code config =
     (let (code1, removed) =
            (if phase (viewability_config config) = PHASE_1
             then remove_ias_tags original_code
             else (original_code, []));
          code2 = inject_amazon_macros code1;
          code3 = (if cache_buster config then inject_cache_buster (now_ms e) code2 None
                   else code2)
      in (code3, removed))"

definition wrap_code :: "string \<Rightarrow> CreativeConfig \<Rightarrow> error + string" where
  "wrap_code code config =
     (if cfg_format config = RUNWAY then
        (if phase (viewability_config config) = PHASE_1
         then Inr (wrap_display_html5_phase1 code config)
         else Inr (wrap_display_html5_phase2 code config))
      else if cfg_format config \<in> set [INSTREAM_VIDEO, ENHANCED_PREROLL] then
        (if phase (viewability_config config) = PHASE_1
         then wrap_vast_phase1 code config
         else wrap_vast_phase2 code config)
      else Inr code)"

definition transform_snippet ::
  "env \<Rightarrow> KargoSnippetResponse \<Rightarrow> CreativeConfig \<Rightarrow> error + string \<times> ProcessingMetadata" where
  "transform_snippet e snippet_response config =
     (let original_code = resp_snippet_code snippet_response;
          (code3, removed) = prepare_code e original_code config
      in case wrap_code code3 config of
           Inl err \<Rightarrow> Inl err
         | Inr wrapped \<Rightarrow>
             (let added = [''amazon_macros'']
                    @ (if cache_buster config then [''cache_buster''] else [])
                    @ (if cfg_format config = RUNWAY then [''amazon_dsp_wrapper'']
                       else [''vast_wrapper'']);
                  vast_errors = (if cfg_format config = RUNWAY then []
                                 else validate_vast_structure wrapped);
                  phase_warnings = validate_phase_configuration
                    (phase (viewability_config config))
                    (vendors (viewability_config config)) wrapped
              in Inr (wrapped,
                   \<lparr>processed_at = utcnow e,
                    processing_time_ms = elapsed_ms e,
                    original_snippet_size = length original_code,
                    processed_snippet_size = length wrapped,
                    tags_removed = removed,
                    tags_added = added,
                    warnings = vast_errors @ phase_warnings,
                    phase_applied = phase (viewability_config config)\<rparr>)))"

definition get_amazon_creative_type :: "CreativeFormat \<Rightarrow> string" where
  "get_amazon_creative_type fmt =
     (case fmt of RUNWAY \<Rightarrow> ''CUSTOM_HTML'' | INSTREAM_VIDEO \<Rightarrow> ''VAST_3_0''
      | ENHANCED_PREROLL \<Rightarrow> ''VAST_3_0'')"

text \<open>\<open>_store_processed_creative\<close>: the row is built and handed to the session, and
  the flush writes it. For the flush the JSON columns are serialized first; the column
  \<open>processing_metadata\<close> gets \<open>creative.processing_metadata.dict()\<close>, and the
  TypeError of \<open>json.dumps\<close> reaches the caller as a StatementError. The dictionaries of
  the other two JSON columns hold texts, numbers, truth values, \<open>None\<close> and members of
  the enumerations, which are written. The column \<open>creative_id\<close> is unique, so a row
  whose identifier the table already has is refused.\<close>

definition store_processed_creative ::
  "ProcessedCreativeDB list \<Rightarrow> ProcessedCreative \<Rightarrow> CreativeConfig \<Rightarrow>
   error + ProcessedCreativeDB list" where
  "store_processed_creative rows creative config =
     (let db_creative =
            \<lparr>db_creative_id = creative_id creative,
             db_name = pc_name creative,
             db_format = pc_format creative,
             db_original_snippet_url = original_snippet_url creative,
             db_processed_code = processed_code creative,
             db_amazon_dsp_ready = amazon_dsp_ready creative,
             db_creative_type = creative_type creative,
             db_viewability_config = pc_viewability_config creative,
             db_processing_metadata = processing_metadata creative,
             db_original_config = config\<rparr>
      in case json_dumps (ProcessingMetadata_dict (processing_metadata creative)) of
           Inl err \<Rightarrow>
             Inl (StatementError
               ''(builtins.TypeError) Object of type datetime is not JSON serializable'')
         | Inr ok \<Rightarrow>
             (if creative_id creative \<in> db_creative_id ` set rows then Inl IntegrityError
              else Inr (rows @ [db_creative])))"

text \<open>\<open>process_creative\<close>: validation, fetch, transformation, the new creative with
  its readiness flag, the store, and the return of the creative.\<close>

definition process_creative ::
  "env \<Rightarrow> CreativeConfig \<Rightarrow> processor_state \<Rightarrow> (error + ProcessedCreative) \<times> processor_state" where
  "process_creative e config st =
     (case validate_config e config of
        Inl err \<Rightarrow> (Inl err, st)
      | Inr ok \<Rightarrow>
          (let st1 = st\<lparr>fetched := fetched st @ [snippet_url config]\<rparr>
           in case get_snippet e (snippet_url config) of
                Inl err \<Rightarrow> (Inl err, st1)
              | Inr snippet_response \<Rightarrow>
                  (case transform_snippet e snippet_response config of
                     Inl err \<Rightarrow> (Inl err, st1)
                   | Inr (code, metadata) \<Rightarrow>
                       (let processed_creative =
                              \<lparr>creative_id = uuid4 e,
                               pc_name = cfg_name config,
                               pc_format = cfg_format config,
                               original_snippet_url = snippet_url config,
                               processed_code = code,
                               amazon_dsp_ready = True,
                               creative_type = get_amazon_creative_type (cfg_format config),
                               pc_viewability_config = viewability_config config,
                               processing_metadata = metadata\<rparr>
                        in case store_processed_creative (db st1) processed_creative config of
                             Inl err \<Rightarrow> (Inl err, st1)
                           | Inr rows \<Rightarrow> (Inr processed_creative, st1\<lparr>db := rows\<rparr>)))))"

text \<open>\<open>select(...).where(creative_id == cid)\<close> followed by \<open>scalar_one_or_none()\<close>:
  no row gives \<open>None\<close>, one row gives it, more rows raise.\<close>

definition scalar_one_or_none ::
  "ProcessedCreativeDB list \<Rightarrow> string \<Rightarrow> error + ProcessedCreativeDB option" where
  "scalar_one_or_none rows cid =
     (case filter (\<lambda>r. db_creative_id r = cid) rows of
        [] \<Rightarrow> Inr None
      | [r] \<Rightarrow> Inr (Some r)
      | _ \<Rightarrow> Inl MultipleResultsFound)"

definition get_processed_creative ::
  "processor_state \<Rightarrow> string \<Rightarrow> error + ProcessedCreative option" where
  "get_processed_creative st cid =
     (case scalar_one_or_none (db st) cid of
        Inl err \<Rightarrow> Inl err
      | Inr None \<Rightarrow> Inr None
      | Inr (Some db_creative) \<Rightarrow>
          Inr (Some \<lparr>creative_id = db_creative_id db_creative,
                     pc_name = db_name db_creative,
                     pc_format = db_format db_creative,
                     original_snippet_url = db_original_snippet_url db_creative,
                     processed_code = db_processed_code db_creative,
                     amazon_dsp_ready = db_amazon_dsp_ready db_creative,
                     creative_type = db_creative_type db_creative,
                     pc_viewability_config = db_viewability_config db_creative,
                     processing_metadata = db_processing_metadata db_creative\<rparr>))"

text \<open>Returns the result and the state after the call.\<close>

definition delete_processed_creative ::
  "processor_state \<Rightarrow> string \<Rightarrow> (error + bool) \<times> processor_state" where
  "delete_processed_creative st cid =
     (case scalar_one_or_none (db st) cid of
        Inl err \<Rightarrow> (Inl err, st)
      | Inr None \<Rightarrow> (Inr False, st)
      | Inr (Some db_creative) \<Rightarrow>
          (Inr True, st\<lparr>db := filter (\<lambda>r. r \<noteq> db_creative) (db st)\<rparr>))"

section \<open>Example values\<close>

text \<open>The example configurations at the end of app/models/creative.py, with the
  defaults of the fields they leave out.\<close>

definition EXAMPLE_RUNWAY_CONFIG :: CreativeConfig where
  "EXAMPLE_RUNWAY_CONFIG =
     \<lparr>cfg_name = ''PMP_Amazon_RMI_CORE_Runway_Anim_GE_v2_Mobile'',
      cfg_format = RUNWAY,
      dimensions = ''320x50'',
      snippet_url = ''https://snippet.kargo.com/snippet/dm/81298'',
      device_type = MOBILE,
      duration = None,
      vast_version = Some ''3.0'',
      branded_canvas = False,
      cache_buster = True,
      viewability_config =
        \<lparr>phase = PHASE_1, vendors = [DOUBLE_VERIFY], vc_method = ''platform_native'',
         dv_native = True, ias_removed = True, ias_s2s_enabled = False,
         dsp_seat_id = None, pub_id = None\<rparr>,
      amazon_macros = True,
      click_tracking = True\<rparr>"

definition EXAMPLE_VIDEO_CONFIG :: CreativeConfig where
  "EXAMPLE_VIDEO_CONFIG =
     \<lparr>cfg_name = ''PMP_Amazon_RMI_Pre-Roll_Branded_Canvas_15s'',
      cfg_format = ENHANCED_PREROLL,
      dimensions = ''300x50'',
      snippet_url = ''https://snippet.kargo.com/snippet/dm/81172'',
      device_type = MOBILE,
      duration = Some 15,
      vast_version = Some ''3.0'',
      branded_canvas = True,
      cache_buster = True,
      viewability_config =
        \<lparr>phase = PHASE_2, vendors = [IAS, DOUBLE_VERIFY], vc_method = ''s2s_plus_wrapped'',
         dv_native = True, ias_removed = True, ias_s2s_enabled = True,
         dsp_seat_id = Some ''KARGO_DSP_SEAT_001'', pub_id = Some ''kargo_publisher_id''\<rparr>,
      amazon_macros = True,
      click_tracking = True\<rparr>"

text \<open>A row of the table, with the columns that \<open>_store_processed_creative\<close> fills
  for a display creative.\<close>

definition example_row :: ProcessedCreativeDB where
  "example_row =
     \<lparr>db_creative_id = ''id-1'',
      db_name = cfg_name EXAMPLE_RUNWAY_CONFIG,
      db_format = RUNWAY,
      db_original_snippet_url = snippet_url EXAMPLE_RUNWAY_CONFIG,
      db_processed_code = ''<div></div>'',
      db_amazon_dsp_ready = True,
      db_creative_type = ''CUSTOM_HTML'',
      db_viewability_config = viewability_config EXAMPLE_RUNWAY_CONFIG,
      db_processing_metadata =
        \<lparr>processed_at = 1700000000, processing_time_ms = 1, original_snippet_size = 0, processed_snippet_size = 11,
         tags_removed = [], tags_added = [''amazon_macros''], warnings = [],
         phase_applied = PHASE_1\<rparr>,
      db_original_config = EXAMPLE_RUNWAY_CONFIG\<rparr>"

text \<open>A small URL parser for the examples: the scheme is the text before \<open>://\<close> and
  the network location runs to the next \<open>/\<close>, \<open>?\<close> or \<open>#\<close>.\<close>

definition example_urlparse :: urlparse where
  "example_urlparse url =
     (let scheme = takeWhile (\<lambda>c. c \<noteq> CHR '':'') url;
          rest = drop (length scheme) url
      in if take 3 rest = ''://''
         then Some (scheme, takeWhile (\<lambda>c. c \<notin> set ''/?#'') (drop 3 rest))
         else Some ([], []))"

text \<open>An environment whose snippet provider answers every fetch with the given code.\<close>

definition example_env :: "string \<Rightarrow> env" where
  "example_env code =
     \<lparr>env_urlparse = example_urlparse,
      get_snippet = (\<lambda>url. Inr \<lparr>resp_snippet_code = code, resp_format = ''runway'',
                                resp_dimensions = Some ''320x50'', resp_duration = None\<rparr>),
      now_ms = 1700000000000,
      elapsed_ms = 1,
      utcnow = 1700000000,
      uuid4 = ''id-2''\<rparr>"

definition example_state :: processor_state where
  "example_state = \<lparr>db = [example_row], fetched = []\<rparr>"


text \<open>The request of the test \<open>test_missing_video_duration\<close>: a video creative
  without a duration.\<close>

definition example_video_config_without_duration :: CreativeConfig where
  "example_video_config_without_duration =
     \<lparr>cfg_name = ''Video Without Duration'',
      cfg_format = ENHANCED_PREROLL,
      dimensions = ''300x50'',
      snippet_url = ''https://snippet.kargo.com/snippet/dm/81172'',
      device_type = MOBILE,
      duration = None,
      vast_version = Some ''3.0'',
      branded_canvas = False,
      cache_buster = True,
      viewability_config =
        \<lparr>phase = PHASE_1, vendors = [DOUBLE_VERIFY], vc_method = ''vast_wrapped'',
         dv_native = True, ias_removed = True, ias_s2s_enabled = False,
         dsp_seat_id = None, pub_id = None\<rparr>,
      amazon_macros = True,
      click_tracking = True\<rparr>"

text \<open>The display example under PHASE_2, with the cache buster switched off.\<close>

definition example_phase2_runway_config :: CreativeConfig where
  "example_phase2_runway_config =
     EXAMPLE_RUNWAY_CONFIG\<lparr>cache_buster := False,
       viewability_config := viewability_config EXAMPLE_VIDEO_CONFIG\<rparr>"

text \<open>The reply of the snippet provider that carries the given code.\<close>

definition example_response :: "string \<Rightarrow> KargoSnippetResponse" where
  "example_response code =
     \<lparr>resp_snippet_code = code, resp_format = ''runway'',
      resp_dimensions = Some ''320x50'', resp_duration = None\<rparr>"

section \<open>Vocabulary of the proofs\<close>

text \<open>Two texts differ at a position that both have.\<close>

fun clash :: "string \<Rightarrow> string \<Rightarrow> bool" where
  "clash (a # as) (b # bs) = (a \<noteq> b \<or> clash as bs)"
| "clash as bs = False"

text \<open>One round of the loop of \<open>inject_amazon_macros\<close>.\<close>

definition macro_step :: "string \<Rightarrow> string \<times> string \<Rightarrow> string" where
  "macro_step code kv = replace_py (fst kv) (snd kv) code"

text \<open>The shape of a macro table that the idempotence proof relies on: every generic
  macro and every replacement starts with a dollar sign and has no other one, and no
  generic macro agrees with a replacement on all the positions they share.\<close>

definition macro_ok :: "(string \<times> string) list \<Rightarrow> bool" where
  "macro_ok tbl =
     (\<forall>kv \<in> set tbl. \<exists>rest new. fst kv = CHR ''$'' # rest \<and> CHR ''$'' \<notin> set rest
         \<and> snd kv = CHR ''$'' # new \<and> CHR ''$'' \<notin> set new
         \<and> (\<forall>kv' \<in> set tbl. clash (fst kv') (snd kv)))"

text \<open>The warnings that \<open>_transform_snippet\<close> records for a wrapped code: the
  errors of the VAST check for a video format, then the warnings of the phase check.\<close>

definition recorded_warnings :: "CreativeConfig \<Rightarrow> string \<Rightarrow> string list" where
  "recorded_warnings config code =
     (if cfg_format config = RUNWAY then [] else validate_vast_structure code)
     @ validate_phase_configuration (phase (viewability_config config))
         (vendors (viewability_config config)) code"

text \<open>Dimensions as the specification words them: digits, \<open>x\<close>, digits, both
  values strictly positive.\<close>

definition spec_dimensions_well_formed :: "string \<Rightarrow> bool" where
  "spec_dimensions_well_formed s =
     (case split_py CHR ''x'' s of
        [w, h] \<Rightarrow> w \<noteq> [] \<and> list_all is_digit w \<and> h \<noteq> [] \<and> list_all is_digit h
                  \<and> 0 < digits_value w \<and> 0 < digits_value h
      | _ \<Rightarrow> False)"

text \<open>A text that starts with whitespace up to and including a newline, and a text in
  which no newline is followed by such a start: the pattern of the whitespace clean-up
  matches nowhere in it.\<close>

fun ws_nl :: "string \<Rightarrow> bool" where
  "ws_nl [] = False"
| "ws_nl (c # cs) = (c = CHR 0x0A \<or> (is_space c \<and> ws_nl cs))"

fun blank_free :: "string \<Rightarrow> bool" where
  "blank_free [] = True"
| "blank_free (c # cs) = (\<not> (c = CHR 0x0A \<and> ws_nl cs) \<and> blank_free cs)"

text \<open>The pattern of the clean-up after its first newline.\<close>

abbreviation (input) ws_then_nl :: "item list" where
  "ws_then_nl \<equiv> [Many is_space, One (\<lambda>c. c = CHR 0x0A)]"

section \<open>Construction of a viewability configuration\<close>

text \<open>
  C2. Constructing a ViewabilityConfig with PHASE_1 and a vendor list that contains IAS
  fails, constructing one with PHASE_2 and fewer than two vendors fails, and every other
  combination of phase and vendors succeeds and keeps the vendor list as given.
\<close>

theorem C2_viewability_config_construction:
  "(ph = PHASE_1 \<and> IAS \<in> set vs \<longrightarrow>
      (\<exists>e. mk_ViewabilityConfig ph vs m dvn iasr s2s seat pub = Inl e))
   \<and> (ph = PHASE_2 \<and> length vs < 2 \<longrightarrow>
      (\<exists>e. mk_ViewabilityConfig ph vs m dvn iasr s2s seat pub = Inl e))
   \<and> (\<not> (ph = PHASE_1 \<and> IAS \<in> set vs) \<and> \<not> (ph = PHASE_2 \<and> length vs < 2) \<longrightarrow>
      (\<exists>c. mk_ViewabilityConfig ph vs m dvn iasr s2s seat pub = Inr c
           \<and> vendors c = vs \<and> phase c = ph))"
  by (cases ph) (simp_all add: mk_ViewabilityConfig_def validate_vendors_for_phase_def)

theorem C2_viewability_config_construction_witness:
  "(\<exists>e. mk_ViewabilityConfig PHASE_1 [DOUBLE_VERIFY, IAS] ''native'' True True False None None
        = Inl e)
   \<and> (\<exists>e. mk_ViewabilityConfig PHASE_2 [IAS] ''s2s'' True True True None None = Inl e)
   \<and> (\<exists>c. mk_ViewabilityConfig PHASE_2 [IAS, DOUBLE_VERIFY] ''s2s'' True True True None None
        = Inr c \<and> vendors c = [IAS, DOUBLE_VERIFY] \<and> phase c = PHASE_2)
   \<and> (\<exists>c. mk_ViewabilityConfig PHASE_1 [] ''native'' True True False None None
        = Inr c \<and> vendors c = [] \<and> phase c = PHASE_1)"
  using C2_viewability_config_construction
          [of PHASE_1 "[DOUBLE_VERIFY, IAS]" "''native''" True True False None None]
        C2_viewability_config_construction
          [of PHASE_2 "[IAS]" "''s2s''" True True True None None]
        C2_viewability_config_construction
          [of PHASE_2 "[IAS, DOUBLE_VERIFY]" "''s2s''" True True True None None]
        C2_viewability_config_construction
          [of PHASE_1 "[]" "''native''" True True False None None]
  by simp

section \<open>Reading and deleting a creative that is not stored\<close>

text \<open>
  C8. For a creative id that no stored row has, get_processed_creative returns None and
  delete_processed_creative returns False; neither raises, and the delete leaves the
  store as it was.
\<close>

theorem C8_missing_id:
  "cid \<notin> db_creative_id ` set (db st) \<Longrightarrow>
     get_processed_creative st cid = Inr None
     \<and> delete_processed_creative st cid = (Inr False, st)"
proof -
  assume "cid \<notin> db_creative_id ` set (db st)"
  then have "filter (\<lambda>r. db_creative_id r = cid) (db st) = []"
    by (auto simp: filter_empty_conv)
  then show ?thesis
    by (simp add: get_processed_creative_def delete_processed_creative_def
                  scalar_one_or_none_def)
qed

theorem C8_missing_id_witness:
  "get_processed_creative \<lparr>db = [example_row], fetched = []\<rparr> ''nonexistent-id'' = Inr None
   \<and> delete_processed_creative \<lparr>db = [example_row], fetched = []\<rparr> ''nonexistent-id''
       = (Inr False, \<lparr>db = [example_row], fetched = []\<rparr>)"
proof -
  have "''nonexistent-id'' \<notin> db_creative_id ` set (db \<lparr>db = [example_row], fetched = []\<rparr>)"
    by (simp add: example_row_def)
  from C8_missing_id [OF this] show ?thesis .
qed

section \<open>Substrings and replacement\<close>

lemma contains_Nil [simp]: "contains [] s"
  by (cases s) simp_all

lemma contains_iff: "contains k s \<longleftrightarrow> (\<exists>ps ss. s = ps @ k @ ss)"
proof (induction s)
  case Nil
  then show ?case by auto
next
  case (Cons c cs)
  show ?case
  proof
    assume "contains k (c # cs)"
    then consider "prefix k (c # cs)" | "contains k cs" by auto
    then show "\<exists>ps ss. c # cs = ps @ k @ ss"
    proof cases
      case 1
      then obtain ss where "c # cs = k @ ss" by (auto simp: prefix_def)
      then have "c # cs = [] @ k @ ss" by simp
      then show ?thesis by blast
    next
      case 2
      with Cons.IH obtain ps ss where "cs = ps @ k @ ss" by blast
      then have "c # cs = (c # ps) @ k @ ss" by simp
      then show ?thesis by blast
    qed
  next
    assume "\<exists>ps ss. c # cs = ps @ k @ ss"
    then obtain ps ss where e: "c # cs = ps @ k @ ss" by blast
    show "contains k (c # cs)"
    proof (cases ps)
      case Nil
      with e have "prefix k (c # cs)" by (simp add: prefix_def)
      then show ?thesis by simp
    next
      case (Cons p ps')
      with e have "cs = ps' @ k @ ss" by simp
      with Cons.IH have "contains k cs" by blast
      then show ?thesis by simp
    qed
  qed
qed

lemma contains_drop: "contains k (drop n s) \<Longrightarrow> contains k s"
proof -
  assume "contains k (drop n s)"
  then obtain ps ss where "drop n s = ps @ k @ ss" by (auto simp: contains_iff)
  then have "s = (take n s @ ps) @ k @ ss" by (metis append.assoc append_take_drop_id)
  then show ?thesis unfolding contains_iff by blast
qed

lemma contains_append_cases:
  "contains k (a @ r) \<Longrightarrow> (\<exists>j < length a. prefix k (drop j a @ r)) \<or> contains k r"
proof (induction a)
  case Nil
  then show ?case by simp
next
  case (Cons x a)
  from Cons.prems have "prefix k (x # a @ r) \<or> contains k (a @ r)" by simp
  then show ?case
  proof
    assume "prefix k (x # a @ r)"
    then have "prefix k (drop 0 (x # a) @ r)" by simp
    then show ?thesis by blast
  next
    assume "contains k (a @ r)"
    with Cons.IH consider j where "j < length a" "prefix k (drop j a @ r)" | "contains k r"
      by blast
    then show ?thesis
    proof cases
      case 1
      then have "Suc j < length (x # a)" "prefix k (drop (Suc j) (x # a) @ r)" by simp_all
      then show ?thesis by blast
    next
      case 2
      then show ?thesis by simp
    qed
  qed
qed

lemma replace_py_absent: "old \<noteq> [] \<Longrightarrow> \<not> contains old s \<Longrightarrow> replace_py old new s = s"
  by (induction s) auto

lemma replace_py_prefix:
  "old \<noteq> [] \<Longrightarrow> d \<notin> set p \<Longrightarrow> prefix p (replace_py old (d # new) s) \<Longrightarrow> prefix p s"
proof (induction s arbitrary: p)
  case Nil
  then show ?case by simp
next
  case (Cons c cs)
  show ?case
  proof (cases p)
    case Nil
    then show ?thesis by simp
  next
    case (Cons q p')
    show ?thesis
    proof (cases "prefix old (c # cs)")
      case True
      with Cons.prems \<open>p = q # p'\<close> show ?thesis by auto
    next
      case False
      with Cons.prems \<open>p = q # p'\<close> have "q = c" "prefix p' (replace_py old (d # new) cs)"
        by auto
      moreover have "d \<notin> set p'" using Cons.prems \<open>p = q # p'\<close> by simp
      ultimately show ?thesis using Cons.IH [of p'] Cons.prems(1) \<open>p = q # p'\<close> by simp
    qed
  qed
qed

lemma clash_not_prefix: "clash k v \<Longrightarrow> \<not> prefix k (v @ t)"
  by (induction k v rule: clash.induct) auto

lemma replace_py_no_new:
  assumes old: "old \<noteq> []"
    and k: "d \<notin> set rest"
    and v: "d \<notin> set new"
    and cl: "clash (d # rest) (d # new)"
  shows "(d # rest = old \<or> \<not> contains (d # rest) s) \<Longrightarrow>
         \<not> contains (d # rest) (replace_py old (d # new) s)"
proof (induction "length s" arbitrary: s rule: less_induct)
  case less
  show ?case
  proof (cases s)
    case Nil
    then show ?thesis using old by simp
  next
    case (Cons c cs)
    show ?thesis
    proof (cases "prefix old (c # cs)")
      case True
      let ?r = "drop (length old) (c # cs)"
      have len: "length ?r < length s" using old Cons by simp
      have "d # rest = old \<or> \<not> contains (d # rest) ?r"
        using less.prems contains_drop Cons by blast
      with less.hyps [OF len] have ih: "\<not> contains (d # rest) (replace_py old (d # new) ?r)" .
      have eq: "replace_py old (d # new) s = (d # new) @ replace_py old (d # new) ?r"
        using True old Cons by simp
      show ?thesis
      proof
        assume "contains (d # rest) (replace_py old (d # new) s)"
        with eq ih obtain j where j: "j < length (d # new)"
          "prefix (d # rest) (drop j (d # new) @ replace_py old (d # new) ?r)"
          using contains_append_cases by metis
        show False
        proof (cases j)
          case 0
          with j cl clash_not_prefix show False by (metis drop0)
        next
          case (Suc i)
          with j have i: "i < length new"
            and p: "prefix (d # rest) (drop i new @ replace_py old (d # new) ?r)" by simp_all
          from i obtain x xs where dx: "drop i new = x # xs"
            by (metis Cons_nth_drop_Suc)
          then have "x \<in> set new" by (metis in_set_dropD list.set_intros(1))
          with v have "x \<noteq> d" by auto
          with p dx show False by simp
        qed
      qed
    next
      case False
      have np: "\<not> prefix (d # rest) (c # cs)"
        using less.prems False Cons by auto
      have len: "length cs < length s" using Cons by simp
      have "d # rest = old \<or> \<not> contains (d # rest) cs"
        using less.prems Cons by auto
      with less.hyps [OF len] have ih: "\<not> contains (d # rest) (replace_py old (d # new) cs)" .
      have eq: "replace_py old (d # new) s = c # replace_py old (d # new) cs"
        using False old Cons by simp
      show ?thesis
      proof
        assume "contains (d # rest) (replace_py old (d # new) s)"
        with eq have "prefix (d # rest) (c # replace_py old (d # new) cs)
            \<or> contains (d # rest) (replace_py old (d # new) cs)"
          by (simp only: contains.simps)
        with ih have "prefix (d # rest) (c # replace_py old (d # new) cs)" by blast
        then have "c = d" "prefix rest (replace_py old (d # new) cs)" by auto
        with replace_py_prefix [OF old k] have "prefix rest cs" by blast
        with \<open>c = d\<close> np show False by simp
      qed
    qed
  qed
qed

lemma macro_step_keeps:
  assumes ok: "macro_ok tbl" and kv: "kv \<in> set tbl" and kv': "kv' \<in> set tbl"
    and h: "fst kv' = fst kv \<or> \<not> contains (fst kv') s"
  shows "\<not> contains (fst kv') (macro_step s kv)"
proof -
  from ok kv obtain rest new where a: "fst kv = CHR ''$'' # rest" "CHR ''$'' \<notin> set rest"
      "snd kv = CHR ''$'' # new" "CHR ''$'' \<notin> set new"
      "\<forall>x \<in> set tbl. clash (fst x) (snd kv)"
    unfolding macro_ok_def by blast
  from ok kv' obtain rest' where b: "fst kv' = CHR ''$'' # rest'" "CHR ''$'' \<notin> set rest'"
    unfolding macro_ok_def by blast
  from a kv' have cl: "clash (CHR ''$'' # rest') (CHR ''$'' # new)" using b by metis
  have "fst kv \<noteq> []" using a by simp
  from replace_py_no_new [OF this b(2) a(4) cl, of s] h a b
  show ?thesis by (simp add: macro_step_def)
qed

lemma macro_fold_keeps:
  assumes ok: "macro_ok tbl"
  shows "set todo \<subseteq> set tbl \<Longrightarrow> kv' \<in> set tbl \<Longrightarrow> \<not> contains (fst kv') s \<Longrightarrow>
         \<not> contains (fst kv') (foldl macro_step s todo)"
proof (induction todo arbitrary: s)
  case Nil
  then show ?case by simp
next
  case (Cons kv todo)
  then have "\<not> contains (fst kv') (macro_step s kv)"
    using macro_step_keeps [OF ok, of kv kv' s] by simp
  with Cons show ?case by simp
qed

lemma macro_fold_clears:
  assumes ok: "macro_ok tbl"
  shows "set todo \<subseteq> set tbl \<Longrightarrow> kv' \<in> set todo \<Longrightarrow>
         \<not> contains (fst kv') (foldl macro_step s todo)"
proof (induction todo arbitrary: s)
  case Nil
  then show ?case by simp
next
  case (Cons kv todo)
  show ?case
  proof (cases "kv' = kv")
    case True
    have "\<not> contains (fst kv') (macro_step s kv)"
      using macro_step_keeps [OF ok, of kv kv' s] Cons.prems True by simp
    moreover have "set todo \<subseteq> set tbl" "kv' \<in> set tbl" using Cons.prems by auto
    ultimately have "\<not> contains (fst kv') (foldl macro_step (macro_step s kv) todo)"
      using macro_fold_keeps [OF ok, of todo kv' "macro_step s kv"] by blast
    then show ?thesis by simp
  next
    case False
    with Cons show ?thesis by simp
  qed
qed

lemma macro_fold_id:
  "\<forall>kv \<in> set todo. fst kv \<noteq> [] \<and> \<not> contains (fst kv) s \<Longrightarrow> foldl macro_step s todo = s"
  by (induction todo) (simp_all add: macro_step_def replace_py_absent)

lemma inject_amazon_macros_fold: "inject_amazon_macros s = foldl macro_step s AMAZON_MACROS"
proof -
  have "(\<lambda>processed_code (generic_macro, amazon_macro).
           replace_py generic_macro amazon_macro processed_code) = macro_step"
    by (simp add: fun_eq_iff macro_step_def split: prod.splits)
  then show ?thesis by (simp add: inject_amazon_macros_def)
qed

lemma macro_ok_AMAZON_MACROS: "macro_ok AMAZON_MACROS"
  by (simp add: macro_ok_def AMAZON_MACROS_def)

text \<open>
  C4. Macro injection is idempotent: injecting the macros into an already injected text
  changes nothing. After one injection no generic macro occurs in the text any more, and
  no replacement of the table contains a generic macro.
\<close>

theorem C4_inject_amazon_macros_idempotent:
  "inject_amazon_macros (inject_amazon_macros s) = inject_amazon_macros s
   \<and> list_all (\<lambda>kv. \<not> contains (fst kv) (inject_amazon_macros s)) AMAZON_MACROS
   \<and> list_all (\<lambda>kv. list_all (\<lambda>kv'. \<not> contains (fst kv) (snd kv')) AMAZON_MACROS)
        AMAZON_MACROS"
proof -
  let ?t = "foldl macro_step s AMAZON_MACROS"
  have clear: "\<forall>kv \<in> set AMAZON_MACROS. \<not> contains (fst kv) ?t"
    using macro_fold_clears [OF macro_ok_AMAZON_MACROS, of AMAZON_MACROS] by blast
  have ne: "\<forall>kv \<in> set AMAZON_MACROS. fst kv \<noteq> []"
    using macro_ok_AMAZON_MACROS unfolding macro_ok_def by fastforce
  from clear ne have "foldl macro_step ?t AMAZON_MACROS = ?t"
    by (intro macro_fold_id) blast
  then have "inject_amazon_macros (inject_amazon_macros s) = inject_amazon_macros s"
    by (simp add: inject_amazon_macros_fold)
  moreover have "list_all (\<lambda>kv. \<not> contains (fst kv) (inject_amazon_macros s)) AMAZON_MACROS"
    using clear by (simp add: inject_amazon_macros_fold list_all_iff)
  moreover have "list_all (\<lambda>kv. list_all (\<lambda>kv'. \<not> contains (fst kv) (snd kv')) AMAZON_MACROS)
        AMAZON_MACROS"
    by (simp add: AMAZON_MACROS_def)
  ultimately show ?thesis by blast
qed

section \<open>The processing pipeline\<close>

lemma transform_snippet_Inr:
  "transform_snippet e resp config = Inr (code, md) \<Longrightarrow>
     wrap_code (fst (prepare_code e (resp_snippet_code resp) config)) config = Inr code
     \<and> original_snippet_size md = length (resp_snippet_code resp)
     \<and> processed_snippet_size md = length code
     \<and> tags_removed md = snd (prepare_code e (resp_snippet_code resp) config)
     \<and> warnings md = recorded_warnings config code
     \<and> phase_applied md = phase (viewability_config config)"
  by (auto simp: transform_snippet_def recorded_warnings_def Let_def
           split: prod.splits sum.splits)

lemma transform_snippet_wrapped:
  "wrap_code (fst (prepare_code e (resp_snippet_code resp) config)) config = Inr code \<Longrightarrow>
     \<exists>md. transform_snippet e resp config = Inr (code, md)"
  by (auto simp: transform_snippet_def Let_def split: prod.splits sum.splits)

lemma process_creative_rejected:
  "validate_config e config = Inl err \<Longrightarrow> process_creative e config st = (Inl err, st)"
  by (simp add: process_creative_def)

lemma json_dumps_metadata:
  "json_dumps (ProcessingMetadata_dict md)
     = Inl (TypeError ''Object of type datetime is not JSON serializable'')"
  by (simp add: json_dumps_def ProcessingMetadata_dict_def json_serializable_def)

text \<open>The flush raises for every creative: the dictionary of its metadata holds the
  \<open>datetime\<close> of \<open>processed_at\<close>.\<close>

lemma store_processed_creative_raises:
  "store_processed_creative rows creative config
     = Inl (StatementError
         ''(builtins.TypeError) Object of type datetime is not JSON serializable'')"
  by (simp add: store_processed_creative_def Let_def json_dumps_metadata)

lemma process_creative_fetches:
  "validate_config e config = Inr ok \<Longrightarrow>
     fetched (snd (process_creative e config st)) = fetched st @ [snippet_url config]"
  by (simp add: process_creative_def store_processed_creative_raises Let_def
           split: sum.splits prod.splits)


text \<open>No call of process_creative returns a creative: it ends with an error of the
  validation, of the fetch, of the wrapper, or of the flush.\<close>

lemma process_creative_never_returns: "isl (fst (process_creative e config st))"
  by (simp add: process_creative_def store_processed_creative_raises Let_def
           split: sum.splits prod.splits)


lemmas example_defs = EXAMPLE_RUNWAY_CONFIG_def EXAMPLE_VIDEO_CONFIG_def example_env_def
  example_state_def example_row_def example_urlparse_def

lemmas validate_defs = validate_config_def validate_snippet_url_def
  validate_creative_format_dimensions_def validate_dimensions_def split_first_def py_int_def
  int_strip_def is_int_space_def int_max_str_digits_def is_digit_def digits_value_def

lemma validate_example_runway:
  "validate_config (example_env code) EXAMPLE_RUNWAY_CONFIG = Inr ()"
  by (simp add: example_defs validate_defs)



section \<open>Configuration errors\<close>

lemma validate_dimensions_fails_iff:
  "(\<exists>err. validate_dimensions dims = Inl err) \<longleftrightarrow>
     \<not> (contains ''x'' dims
        \<and> (\<exists>w h. py_int (fst (split_first CHR ''x'' dims)) = Some w
               \<and> py_int (snd (split_first CHR ''x'' dims)) = Some h \<and> 0 < w \<and> 0 < h))"
  by (auto simp: validate_dimensions_def Let_def split: prod.splits option.splits)

lemma validate_dimensions_error:
  "validate_dimensions dims = Inl err \<Longrightarrow> \<exists>msg. err = ValidationError msg"
  by (auto simp: validate_dimensions_def Let_def split: prod.splits option.splits if_splits)

text \<open>
  C6 (amended). When the source URL is rejected by validate_snippet_url (the parser
  raises, or the scheme is empty, or the network location is empty or does not contain
  \<open>snippet.kargo.com\<close>), or the dimensions are rejected by validate_dimensions,
  process_creative raises ValueError or ValidationError and leaves the state as it was:
  nothing is fetched and nothing is stored. The
  dimensions are rejected exactly when they have no \<open>x\<close>, or a side of the first
  \<open>x\<close> is not accepted by \<open>int()\<close>, or a value is not positive. \<open>int()\<close> also
  accepts a sign, the whitespace it skips and single underscores between digits, so the
  accepted dimensions are more than digits, \<open>x\<close>, digits.
\<close>

theorem C6_invalid_config_aborts_before_fetch:
  "(\<not> validate_snippet_url (env_urlparse e) (snippet_url config)
      \<or> (\<exists>err. validate_dimensions (dimensions config) = Inl err) \<longrightarrow>
        (\<exists>msg. process_creative e config st = (Inl (ValueError msg), st)
             \<or> process_creative e config st = (Inl (ValidationError msg), st)))
   \<and> ((\<exists>err. validate_dimensions (dimensions config) = Inl err) \<longleftrightarrow>
        \<not> (contains ''x'' (dimensions config)
           \<and> (\<exists>w h. py_int (fst (split_first CHR ''x'' (dimensions config))) = Some w
                  \<and> py_int (snd (split_first CHR ''x'' (dimensions config))) = Some h
                  \<and> 0 < w \<and> 0 < h)))"
proof (intro conjI impI)
  assume a: "\<not> validate_snippet_url (env_urlparse e) (snippet_url config)
      \<or> (\<exists>err. validate_dimensions (dimensions config) = Inl err)"
  show "\<exists>msg. process_creative e config st = (Inl (ValueError msg), st)
             \<or> process_creative e config st = (Inl (ValidationError msg), st)"
  proof (cases "validate_snippet_url (env_urlparse e) (snippet_url config)")
    case False
    then have "validate_config e config
        = Inl (ValueError (''Invalid snippet URL: '' @ snippet_url config))"
      by (simp add: validate_config_def)
    from process_creative_rejected [OF this] show ?thesis by blast
  next
    case True
    with a obtain err where d: "validate_dimensions (dimensions config) = Inl err" by blast
    from validate_dimensions_error [OF d] obtain msg where m: "err = ValidationError msg"
      by blast
    from True d have "validate_config e config = Inl err"
      by (simp add: validate_config_def validate_creative_format_dimensions_def)
    from process_creative_rejected [OF this] m show ?thesis by blast
  qed
next
  show "(\<exists>err. validate_dimensions (dimensions config) = Inl err) \<longleftrightarrow>
        \<not> (contains ''x'' (dimensions config)
           \<and> (\<exists>w h. py_int (fst (split_first CHR ''x'' (dimensions config))) = Some w
                  \<and> py_int (snd (split_first CHR ''x'' (dimensions config))) = Some h
                  \<and> 0 < w \<and> 0 < h))"
    by (rule validate_dimensions_fails_iff)
qed

theorem C6_invalid_config_aborts_before_fetch_witness:
  "process_creative (example_env [])
       (EXAMPLE_RUNWAY_CONFIG\<lparr>snippet_url := ''https://invalid-domain.com/snippet''\<rparr>)
       example_state
     = (Inl (ValueError ''Invalid snippet URL: https://invalid-domain.com/snippet''),
        example_state)
   \<and> process_creative (example_env []) (EXAMPLE_RUNWAY_CONFIG\<lparr>dimensions := ''0x50''\<rparr>)
       example_state
     = (Inl (ValidationError ''Width and height must be positive numbers''), example_state)
   \<and> process_creative (example_env [])
       (EXAMPLE_RUNWAY_CONFIG\<lparr>dimensions := ''320x50'' @ [CHR 0x1F]\<rparr>) example_state
     = (Inl (ValidationError ''Width and height must be valid numbers''), example_state)"
proof -
  let ?c1 = "EXAMPLE_RUNWAY_CONFIG\<lparr>snippet_url := ''https://invalid-domain.com/snippet''\<rparr>"
  let ?c2 = "EXAMPLE_RUNWAY_CONFIG\<lparr>dimensions := ''0x50''\<rparr>"
  let ?c3 = "EXAMPLE_RUNWAY_CONFIG\<lparr>dimensions := ''320x50'' @ [CHR 0x1F]\<rparr>"
  have u1: "\<not> validate_snippet_url (env_urlparse (example_env [])) (snippet_url ?c1)"
    by (simp add: example_defs validate_defs)
  have u2: "validate_snippet_url (env_urlparse (example_env [])) (snippet_url ?c2)"
    by (simp add: example_defs validate_defs)
  have u3: "validate_snippet_url (env_urlparse (example_env [])) (snippet_url ?c3)"
    by (simp add: example_defs validate_defs)
  have d2: "validate_dimensions (dimensions ?c2)
              = Inl (ValidationError ''Width and height must be positive numbers'')"
    by (simp add: example_defs validate_defs)
  have d3: "validate_dimensions (dimensions ?c3)
              = Inl (ValidationError ''Width and height must be valid numbers'')"
    by (simp add: example_defs validate_defs)
  have v1: "validate_config (example_env []) ?c1
        = Inl (ValueError ''Invalid snippet URL: https://invalid-domain.com/snippet'')"
    using u1 by (simp add: validate_config_def EXAMPLE_RUNWAY_CONFIG_def)
  have v2: "validate_config (example_env []) ?c2
        = Inl (ValidationError ''Width and height must be positive numbers'')"
    using u2 d2 by (simp add: validate_config_def validate_creative_format_dimensions_def)
  have v3: "validate_config (example_env []) ?c3
        = Inl (ValidationError ''Width and height must be valid numbers'')"
    using u3 d3 by (simp add: validate_config_def validate_creative_format_dimensions_def)
  from C6_invalid_config_aborts_before_fetch [of "example_env []" ?c1 example_state] u1
  obtain m1 where "process_creative (example_env []) ?c1 example_state
                     = (Inl (ValueError m1), example_state)
       \<or> process_creative (example_env []) ?c1 example_state
                     = (Inl (ValidationError m1), example_state)" by blast
  with v1 have r1: "process_creative (example_env []) ?c1 example_state
      = (Inl (ValueError ''Invalid snippet URL: https://invalid-domain.com/snippet''),
         example_state)"
    by (auto simp: process_creative_def)
  from C6_invalid_config_aborts_before_fetch [of "example_env []" ?c2 example_state] d2
  obtain m2 where "process_creative (example_env []) ?c2 example_state
                     = (Inl (ValueError m2), example_state)
       \<or> process_creative (example_env []) ?c2 example_state
                     = (Inl (ValidationError m2), example_state)" by blast
  with v2 have r2: "process_creative (example_env []) ?c2 example_state
      = (Inl (ValidationError ''Width and height must be positive numbers''), example_state)"
    by (auto simp: process_creative_def)
  from C6_invalid_config_aborts_before_fetch [of "example_env []" ?c3 example_state] d3
  obtain m3 where "process_creative (example_env []) ?c3 example_state
                     = (Inl (ValueError m3), example_state)
       \<or> process_creative (example_env []) ?c3 example_state
                     = (Inl (ValidationError m3), example_state)" by blast
  with v3 have r3: "process_creative (example_env []) ?c3 example_state
      = (Inl (ValidationError ''Width and height must be valid numbers''), example_state)"
    by (auto simp: process_creative_def)
  from r1 r2 r3 show ?thesis by blast
qed

text \<open>
  The claim C6 as stated fails for the dimensions \<open>+320x50\<close>: they are not of the form
  digits, \<open>x\<close>, digits, yet construction and validation accept them and the snippet
  is fetched.
\<close>

theorem C6_signed_dimensions_counterexample:
  "\<not> spec_dimensions_well_formed ''+320x50''
   \<and> mk_CreativeConfig ''Signed'' RUNWAY ''+320x50''
        ''https://snippet.kargo.com/snippet/dm/81298'' MOBILE None (Some ''3.0'') False True
        (viewability_config EXAMPLE_RUNWAY_CONFIG) True True
      = Inr (EXAMPLE_RUNWAY_CONFIG\<lparr>cfg_name := ''Signed'', dimensions := ''+320x50''\<rparr>)
   \<and> validate_config (example_env [])
        (EXAMPLE_RUNWAY_CONFIG\<lparr>cfg_name := ''Signed'', dimensions := ''+320x50''\<rparr>) = Inr ()
   \<and> fetched (snd (process_creative (example_env [])
        (EXAMPLE_RUNWAY_CONFIG\<lparr>cfg_name := ''Signed'', dimensions := ''+320x50''\<rparr>)
        example_state))
      = [''https://snippet.kargo.com/snippet/dm/81298'']"
proof -
  let ?c = "EXAMPLE_RUNWAY_CONFIG\<lparr>cfg_name := ''Signed'', dimensions := ''+320x50''\<rparr>"
  have a: "\<not> spec_dimensions_well_formed ''+320x50''"
    by (simp add: spec_dimensions_well_formed_def is_digit_def)
  have b: "mk_CreativeConfig ''Signed'' RUNWAY ''+320x50''
        ''https://snippet.kargo.com/snippet/dm/81298'' MOBILE None (Some ''3.0'') False True
        (viewability_config EXAMPLE_RUNWAY_CONFIG) True True = Inr ?c"
    by (simp add: mk_CreativeConfig_def CreativeConfig_validate_dimensions_def
                  EXAMPLE_RUNWAY_CONFIG_def py_int_def int_strip_def is_int_space_def int_max_str_digits_def is_digit_def)
  have c: "validate_config (example_env []) ?c = Inr ()"
    by (simp add: example_defs validate_defs)
  from process_creative_fetches [OF c, of example_state]
  have d: "fetched (snd (process_creative (example_env []) ?c example_state))
             = [''https://snippet.kargo.com/snippet/dm/81298'']"
    by (simp add: example_defs)
  from a b c d show ?thesis by blast
qed


section \<open>A video creative without a duration\<close>

text \<open>Neither the construction of a CreativeConfig nor _validate_config looks at the
  duration, and both VAST wrappers format it with \<open>:02d\<close>. So for every video
  configuration without a duration that passes validation, the snippet is fetched, and
  when the fetch succeeds the call ends with the TypeError of the wrapper.\<close>

lemma wrap_code_without_duration:
  "cfg_format config \<in> {INSTREAM_VIDEO, ENHANCED_PREROLL} \<Longrightarrow> duration config = None \<Longrightarrow>
     wrap_code code config
       = Inl (TypeError ''unsupported format string passed to NoneType.__format__'')"
  by (auto simp: wrap_code_def wrap_vast_phase1_def wrap_vast_phase2_def)

lemma video_without_duration_raises:
  assumes fmt: "cfg_format config \<in> {INSTREAM_VIDEO, ENHANCED_PREROLL}"
    and d: "duration config = None"
    and v: "validate_config e config = Inr ()"
    and f: "get_snippet e (snippet_url config) = Inr resp"
  shows "process_creative e config st
     = (Inl (TypeError ''unsupported format string passed to NoneType.__format__''),
        st\<lparr>fetched := fetched st @ [snippet_url config]\<rparr>)"
proof -
  have "transform_snippet e resp config
      = Inl (TypeError ''unsupported format string passed to NoneType.__format__'')"
    using wrap_code_without_duration [OF fmt d]
    by (simp add: transform_snippet_def Let_def split: prod.splits)
  with v f show ?thesis by (simp add: process_creative_def Let_def)
qed

text \<open>
  C7, at the request of the test \<open>test_missing_video_duration\<close>: a video creative
  without a duration. The configuration is constructed and passes _validate_config, so
  it is not rejected as a configuration error; process_creative fetches the snippet and
  then ends with the TypeError that the VAST wrapper raises when it formats \<open>None\<close>
  with \<open>:02d\<close>. The test expects the request to be answered with status 200.
\<close>

theorem C7_video_without_duration_raises_after_fetch:
  "mk_CreativeConfig ''Video Without Duration'' ENHANCED_PREROLL ''300x50''
       ''https://snippet.kargo.com/snippet/dm/81172'' MOBILE None (Some ''3.0'') False True
       \<lparr>phase = PHASE_1, vendors = [DOUBLE_VERIFY], vc_method = ''vast_wrapped'',
        dv_native = True, ias_removed = True, ias_s2s_enabled = False,
        dsp_seat_id = None, pub_id = None\<rparr> True True
     = Inr example_video_config_without_duration
   \<and> cfg_format example_video_config_without_duration = ENHANCED_PREROLL
   \<and> duration example_video_config_without_duration = None
   \<and> validate_config (example_env []) example_video_config_without_duration = Inr ()
   \<and> process_creative (example_env []) example_video_config_without_duration example_state
     = (Inl (TypeError ''unsupported format string passed to NoneType.__format__''),
        example_state\<lparr>fetched := [''https://snippet.kargo.com/snippet/dm/81172'']\<rparr>)"
proof -
  let ?c = example_video_config_without_duration
  let ?resp = "\<lparr>resp_snippet_code = [], resp_format = ''runway'',
                 resp_dimensions = Some ''320x50'', resp_duration = None\<rparr>"
  have m: "mk_CreativeConfig ''Video Without Duration'' ENHANCED_PREROLL ''300x50''
       ''https://snippet.kargo.com/snippet/dm/81172'' MOBILE None (Some ''3.0'') False True
       \<lparr>phase = PHASE_1, vendors = [DOUBLE_VERIFY], vc_method = ''vast_wrapped'',
        dv_native = True, ias_removed = True, ias_s2s_enabled = False,
        dsp_seat_id = None, pub_id = None\<rparr> True True = Inr ?c"
    by (simp add: example_video_config_without_duration_def mk_CreativeConfig_def
                  CreativeConfig_validate_dimensions_def py_int_def int_strip_def
                  is_int_space_def int_max_str_digits_def is_digit_def)
  have fmt: "cfg_format ?c \<in> {INSTREAM_VIDEO, ENHANCED_PREROLL}"
    and d: "duration ?c = None"
    by (simp_all add: example_video_config_without_duration_def)
  have v: "validate_config (example_env []) ?c = Inr ()"
    by (simp add: example_video_config_without_duration_def example_defs validate_defs)
  have f: "get_snippet (example_env []) (snippet_url ?c) = Inr ?resp"
    by (simp add: example_env_def)
  from video_without_duration_raises [OF fmt d v f, of example_state]
  have p: "process_creative (example_env []) ?c example_state
     = (Inl (TypeError ''unsupported format string passed to NoneType.__format__''),
        example_state\<lparr>fetched := [''https://snippet.kargo.com/snippet/dm/81172'']\<rparr>)"
    by (simp add: example_video_config_without_duration_def example_state_def)
  from m v p d show ?thesis
    by (simp add: example_video_config_without_duration_def)
qed
section \<open>The wrapper text\<close>

lemma strip_py_id:
  "s \<noteq> [] \<Longrightarrow> \<not> is_space (hd s) \<Longrightarrow> \<not> is_space (last s) \<Longrightarrow> strip_py s = s"
proof -
  assume a: "s \<noteq> []" "\<not> is_space (hd s)" "\<not> is_space (last s)"
  then have "dropWhile is_space s = s" by (cases s) simp_all
  moreover from a have "dropWhile is_space (rev s) = rev s"
    by (cases "rev s") (simp_all add: last_rev [symmetric] hd_rev)
  ultimately show ?thesis by (simp add: strip_py_def)
qed

lemma length_strip_py: "length (strip_py s) \<le> length s"
proof -
  have "length (dropWhile is_space (rev (dropWhile is_space s)))
          \<le> length (rev (dropWhile is_space s))" by (rule length_dropWhile_le)
  also have "\<dots> \<le> length s" by (simp add: length_dropWhile_le)
  finally show ?thesis by (simp add: strip_py_def)
qed

lemma strip_py_middle:
  assumes "\<exists>x \<in> set a. \<not> is_space x" and "\<exists>y \<in> set b. \<not> is_space y"
  shows "\<exists>a' b'. a' \<noteq> [] \<and> strip_py (a @ m @ b) = a' @ m @ b'"
proof -
  from assms(1) have l: "dropWhile is_space (a @ m @ b) = dropWhile is_space a @ m @ b"
    and ne: "dropWhile is_space a \<noteq> []"
    by (auto simp: dropWhile_append1 dropWhile_eq_Nil_conv)
  from assms(2) have "\<exists>y \<in> set (rev b). \<not> is_space y" by simp
  then have r: "dropWhile is_space (rev b @ rev m @ rev (dropWhile is_space a))
      = dropWhile is_space (rev b) @ rev m @ rev (dropWhile is_space a)"
    by (auto simp: dropWhile_append1)
  have "strip_py (a @ m @ b)
      = dropWhile is_space a @ m @ rev (dropWhile is_space (rev b))"
    by (simp add: strip_py_def l r)
  with ne show ?thesis by blast
qed

lemma nl_join_Nil_iff: "nl_join ls = [] \<longleftrightarrow> (ls = [] \<or> ls = [[]])"
  by (induction ls rule: nl_join.induct) auto

lemma hd_nl_join: "ls \<noteq> [] \<Longrightarrow> hd ls \<noteq> [] \<Longrightarrow> hd (nl_join ls) = hd (hd ls)"
  by (induction ls rule: nl_join.induct) auto

lemma last_nl_join: "ls \<noteq> [] \<Longrightarrow> last ls \<noteq> [] \<Longrightarrow> last (nl_join ls) = last (last ls)"
  by (induction ls rule: nl_join.induct) (auto simp: nl_join_Nil_iff)

lemma prefix_nl_join: "ls \<noteq> [] \<Longrightarrow> prefix k (hd ls) \<Longrightarrow> prefix k (nl_join ls)"
  by (induction ls rule: nl_join.induct) (auto intro: prefix_prefix)

lemma suffix_nl_join: "ls \<noteq> [] \<Longrightarrow> suffix k (last ls) \<Longrightarrow> suffix k (nl_join ls)"
proof (induction ls rule: nl_join.induct)
  case (3 l m ls)
  then have "suffix k (nl_join (m # ls))" by simp
  then show ?case by (simp add: suffix_append suffix_Cons)
qed simp_all

lemma contains_append1: "contains k a \<Longrightarrow> contains k (a @ b)"
  unfolding contains_iff by (metis append.assoc)

lemma contains_append2: "contains k b \<Longrightarrow> contains k (a @ b)"
  unfolding contains_iff by (metis append.assoc)

lemma contains_Cons: "contains k b \<Longrightarrow> contains k (c # b)"
  by simp

lemma contains_nl_join: "i < length ls \<Longrightarrow> contains k (ls ! i) \<Longrightarrow> contains k (nl_join ls)"
proof (induction ls arbitrary: i rule: nl_join.induct)
  case (3 l m ls)
  show ?case
  proof (cases i)
    case 0
    with 3 show ?thesis by (simp add: contains_append1 del: contains.simps)
  next
    case (Suc j)
    with 3 have "contains k (nl_join (m # ls))" by simp
    then show ?thesis by (simp add: contains_append2 contains_Cons del: contains.simps)
  qed
qed simp_all

lemma contains_between:
  "suffix k1 a \<Longrightarrow> prefix k2 b \<Longrightarrow> contains (k1 @ m @ k2) (x @ a @ m @ b @ y)"
proof -
  assume "suffix k1 a" "prefix k2 b"
  then obtain a' b' where "a = a' @ k1" "b = k2 @ b'" by (auto simp: suffix_def prefix_def)
  then have "x @ a @ m @ b @ y = (x @ a') @ (k1 @ m @ k2) @ (b' @ y)" by simp
  then show ?thesis unfolding contains_iff by blast
qed


lemma vast1_head_0: "wrap_vast_phase1_head_0 \<noteq> [] \<and> \<not> is_space (hd wrap_vast_phase1_head_0)"
  unfolding wrap_vast_phase1_head_0_def
  by (simp add: is_space_def)

lemma vast2_head_0: "wrap_vast_phase2_head_0 \<noteq> [] \<and> \<not> is_space (hd wrap_vast_phase2_head_0)"
  unfolding wrap_vast_phase2_head_0_def
  by (simp add: is_space_def)

lemma vast1_tail_1: "wrap_vast_phase1_tail_1 \<noteq> [] \<and> \<not> is_space (last wrap_vast_phase1_tail_1)"
  unfolding wrap_vast_phase1_tail_1_def
  by (subst last_nl_join) (simp_all add: nl_join_Nil_iff is_space_def)

lemma vast2_tail_3: "wrap_vast_phase2_tail_3 \<noteq> [] \<and> \<not> is_space (last wrap_vast_phase2_tail_3)"
  unfolding wrap_vast_phase2_tail_3_def
  by (subst last_nl_join) (simp_all add: nl_join_Nil_iff is_space_def)

lemma vast1_head_2: "suffix ''<Duration>00:00:'' wrap_vast_phase1_head_2"
  unfolding wrap_vast_phase1_head_2_def
  by (rule suffix_nl_join) (simp_all add: suffix_def)

lemma vast2_head_2: "suffix ''<Duration>00:00:'' wrap_vast_phase2_head_2"
  unfolding wrap_vast_phase2_head_2_def
  by (rule suffix_nl_join) (simp_all add: suffix_def)

lemma vast1_head_3: "prefix ''</Duration>'' wrap_vast_phase1_head_3"
  unfolding wrap_vast_phase1_head_3_def
  by (rule prefix_nl_join) simp_all

lemma vast2_head_3: "prefix ''</Duration>'' wrap_vast_phase2_head_3"
  unfolding wrap_vast_phase2_head_3_def
  by (rule prefix_nl_join) simp_all

lemma vast1_start: \<open>contains ''event="start"'' wrap_vast_phase1_head_3\<close>
  unfolding wrap_vast_phase1_head_3_def
  by (rule contains_nl_join [where i = 4]) simp_all

lemma vast1_complete: \<open>contains ''event="complete"'' wrap_vast_phase1_head_3\<close>
  unfolding wrap_vast_phase1_head_3_def
  by (rule contains_nl_join [where i = 16]) simp_all

lemma vast2_start: \<open>contains ''event="start"'' wrap_vast_phase2_head_3\<close>
  unfolding wrap_vast_phase2_head_3_def
  by (rule contains_nl_join [where i = 4]) simp_all

lemma vast2_complete: \<open>contains ''event="complete"'' wrap_vast_phase2_head_3\<close>
  unfolding wrap_vast_phase2_head_3_def
  by (rule contains_nl_join [where i = 16]) simp_all

lemma strip_py_framed:
  "a \<noteq> [] \<Longrightarrow> \<not> is_space (hd a) \<Longrightarrow> b \<noteq> [] \<Longrightarrow> \<not> is_space (last b) \<Longrightarrow>
     strip_py (a @ m @ b) = a @ m @ b"
  by (rule strip_py_id) simp_all

lemma wrap_vast_phase1_shape:
  assumes "wrap_vast_phase1 code config = Inr w"
  shows "\<exists>d mid. duration config = Some d
     \<and> w = wrap_vast_phase1_head_0
         @ ((cfg_name config @ ''_phase1'') @ wrap_vast_phase1_head_1 @ snippet_url config)
         @ wrap_vast_phase1_head_2 @ format_02d d @ wrap_vast_phase1_head_3
         @ mid @ wrap_vast_phase1_tail_1"
proof -
  from assms obtain d where d: "duration config = Some d"
    by (auto simp: wrap_vast_phase1_def split: option.splits)
  let ?pre = "((cfg_name config @ ''_phase1'') @ wrap_vast_phase1_head_1 @ snippet_url config)
         @ wrap_vast_phase1_head_2 @ format_02d d @ wrap_vast_phase1_head_3"
  have "\<exists>mid. w = strip_py (wrap_vast_phase1_head_0 @ (?pre @ mid) @ wrap_vast_phase1_tail_1)"
  proof (cases "branded_canvas config")
    case False
    with assms d have "w = strip_py (wrap_vast_phase1_head_0
        @ (?pre @ (wrap_vast_phase1_tail_0 @ cfg_name config)) @ wrap_vast_phase1_tail_1)"
      by (simp add: wrap_vast_phase1_def Let_def)
    then show ?thesis by blast
  next
    case True
    with assms d obtain cw ch where "split_py CHR ''x'' (dimensions config) = [cw, ch]"
      by (auto simp: wrap_vast_phase1_def Let_def split: list.splits)
    with True assms d have "w = strip_py (wrap_vast_phase1_head_0
        @ (?pre @ (wrap_vast_phase1_canvas_0 @ cw @ wrap_vast_phase1_canvas_1 @ ch
          @ wrap_vast_phase1_canvas_2 @ cw @ wrap_vast_phase1_canvas_3 @ ch
          @ wrap_vast_phase1_canvas_4 @ wrap_vast_phase1_tail_0 @ cfg_name config))
        @ wrap_vast_phase1_tail_1)"
      by (simp add: wrap_vast_phase1_def Let_def)
    then show ?thesis by blast
  qed
  then obtain mid where
    "w = strip_py (wrap_vast_phase1_head_0 @ (?pre @ mid) @ wrap_vast_phase1_tail_1)"
    by blast
  moreover have "strip_py (wrap_vast_phase1_head_0 @ (?pre @ mid) @ wrap_vast_phase1_tail_1)
      = wrap_vast_phase1_head_0 @ (?pre @ mid) @ wrap_vast_phase1_tail_1"
    using vast1_head_0 vast1_tail_1 by (intro strip_py_framed) blast+
  ultimately have "w = wrap_vast_phase1_head_0 @ (?pre @ mid) @ wrap_vast_phase1_tail_1"
    by (simp only:)
  with d show ?thesis by simp
qed

lemma wrap_vast_phase2_shape:
  assumes "wrap_vast_phase2 code config = Inr w"
  shows "\<exists>d mid. duration config = Some d
     \<and> w = wrap_vast_phase2_head_0
         @ ((cfg_name config @ ''_phase2'') @ wrap_vast_phase2_head_1 @ snippet_url config)
         @ wrap_vast_phase2_head_2 @ format_02d d @ wrap_vast_phase2_head_3
         @ mid @ wrap_vast_phase2_tail_3"
proof -
  from assms obtain d where d: "duration config = Some d"
    by (auto simp: wrap_vast_phase2_def split: option.splits)
  let ?pre = "((cfg_name config @ ''_phase2'') @ wrap_vast_phase2_head_1 @ snippet_url config)
         @ wrap_vast_phase2_head_2 @ format_02d d @ wrap_vast_phase2_head_3"
  let ?tl = "wrap_vast_phase2_tail_0 @ format_opt (dsp_seat_id (viewability_config config))
          @ wrap_vast_phase2_tail_1 @ format_opt (pub_id (viewability_config config))
          @ wrap_vast_phase2_tail_2 @ cfg_name config"
  have "\<exists>mid. w = strip_py (wrap_vast_phase2_head_0 @ (?pre @ mid) @ wrap_vast_phase2_tail_3)"
  proof (cases "branded_canvas config")
    case False
    with assms d have "w = strip_py (wrap_vast_phase2_head_0
        @ (?pre @ ?tl) @ wrap_vast_phase2_tail_3)"
      by (simp add: wrap_vast_phase2_def Let_def)
    then show ?thesis by blast
  next
    case True
    with assms d obtain cw ch where "split_py CHR ''x'' (dimensions config) = [cw, ch]"
      by (auto simp: wrap_vast_phase2_def Let_def split: list.splits)
    with True assms d have "w = strip_py (wrap_vast_phase2_head_0
        @ (?pre @ (wrap_vast_phase2_canvas_0 @ cw @ wrap_vast_phase2_canvas_1 @ ch
          @ wrap_vast_phase2_canvas_2 @ cw @ wrap_vast_phase2_canvas_3 @ ch
          @ wrap_vast_phase2_canvas_4 @ ?tl))
        @ wrap_vast_phase2_tail_3)"
      by (simp add: wrap_vast_phase2_def Let_def)
    then show ?thesis by blast
  qed
  then obtain mid where
    "w = strip_py (wrap_vast_phase2_head_0 @ (?pre @ mid) @ wrap_vast_phase2_tail_3)"
    by blast
  moreover have "strip_py (wrap_vast_phase2_head_0 @ (?pre @ mid) @ wrap_vast_phase2_tail_3)
      = wrap_vast_phase2_head_0 @ (?pre @ mid) @ wrap_vast_phase2_tail_3"
    using vast2_head_0 vast2_tail_3 by (intro strip_py_framed) blast+
  ultimately have "w = wrap_vast_phase2_head_0 @ (?pre @ mid) @ wrap_vast_phase2_tail_3"
    by (simp only:)
  with d show ?thesis by simp
qed

lemma vast_contents:
  assumes w: "w = h0 @ pre @ h2 @ dd @ h3 @ mid @ t"
    and h2: "suffix ''<Duration>00:00:'' h2"
    and h3: "prefix ''</Duration>'' h3"
    and s: \<open>contains ''event="start"'' h3\<close>
    and c: \<open>contains ''event="complete"'' h3\<close>
  shows \<open>contains ''event="start"'' w \<and> contains ''event="complete"'' w
         \<and> contains (''<Duration>00:00:'' @ dd @ ''</Duration>'') w\<close>
proof -
  have e: "w = (h0 @ pre @ h2 @ dd) @ h3 @ (mid @ t)" using w by simp
  have "contains (''<Duration>00:00:'' @ dd @ ''</Duration>'') ((h0 @ pre) @ h2 @ dd @ h3 @ (mid @ t))"
    using h2 h3 by (rule contains_between)
  then have "contains (''<Duration>00:00:'' @ dd @ ''</Duration>'') w" using w by simp
  moreover have \<open>contains ''event="start"'' w\<close>
    unfolding e using s by (intro contains_append2 contains_append1)
  moreover have \<open>contains ''event="complete"'' w\<close>
    unfolding e using c by (intro contains_append2 contains_append1)
  ultimately show ?thesis by blast
qed

lemma wrap_vast_phase1_contents:
  assumes "wrap_vast_phase1 code config = Inr w"
  shows \<open>\<exists>d. duration config = Some d
     \<and> contains ''event="start"'' w \<and> contains ''event="complete"'' w
     \<and> contains (''<Duration>00:00:'' @ format_02d d @ ''</Duration>'') w\<close>
proof -
  from wrap_vast_phase1_shape [OF assms] obtain d mid where d: "duration config = Some d"
    and w: "w = wrap_vast_phase1_head_0
         @ ((cfg_name config @ ''_phase1'') @ wrap_vast_phase1_head_1 @ snippet_url config)
         @ wrap_vast_phase1_head_2 @ format_02d d @ wrap_vast_phase1_head_3
         @ mid @ wrap_vast_phase1_tail_1" by blast
  from vast_contents [OF w vast1_head_2 vast1_head_3 vast1_start vast1_complete] d
  show ?thesis by blast
qed

lemma wrap_vast_phase2_contents:
  assumes "wrap_vast_phase2 code config = Inr w"
  shows \<open>\<exists>d. duration config = Some d
     \<and> contains ''event="start"'' w \<and> contains ''event="complete"'' w
     \<and> contains (''<Duration>00:00:'' @ format_02d d @ ''</Duration>'') w\<close>
proof -
  from wrap_vast_phase2_shape [OF assms] obtain d mid where d: "duration config = Some d"
    and w: "w = wrap_vast_phase2_head_0
         @ ((cfg_name config @ ''_phase2'') @ wrap_vast_phase2_head_1 @ snippet_url config)
         @ wrap_vast_phase2_head_2 @ format_02d d @ wrap_vast_phase2_head_3
         @ mid @ wrap_vast_phase2_tail_3" by blast
  from vast_contents [OF w vast2_head_2 vast2_head_3 vast2_start vast2_complete] d
  show ?thesis by blast
qed

lemma wrap_vast_phase1_returns:
  "duration config = Some d \<Longrightarrow> length (split_py CHR ''x'' (dimensions config)) = 2 \<Longrightarrow>
     \<exists>w. wrap_vast_phase1 code config = Inr w"
  by (auto simp: wrap_vast_phase1_def Let_def split: list.splits)

lemma wrap_vast_phase2_returns:
  "duration config = Some d \<Longrightarrow> length (split_py CHR ''x'' (dimensions config)) = 2 \<Longrightarrow>
     \<exists>w. wrap_vast_phase2 code config = Inr w"
  by (auto simp: wrap_vast_phase2_def Let_def split: list.splits)

text \<open>
  C3. Both VAST wrappers contain a start and a complete tracking event, and a Duration
  element that holds \<open>00:00:\<close> followed by the duration in at least two digits
  (the two lemmas above). For a duration of 75 seconds the element is therefore
  \<open>00:00:75\<close>, not \<open>00:01:15\<close>.
\<close>

theorem C3_duration_75_rendering:
  \<open>\<not> isl (wrap_vast_phase1 [] (EXAMPLE_VIDEO_CONFIG\<lparr>duration := Some 75\<rparr>))
   \<and> contains ''<Duration>00:00:75</Duration>''
        (projr (wrap_vast_phase1 [] (EXAMPLE_VIDEO_CONFIG\<lparr>duration := Some 75\<rparr>)))
   \<and> \<not> isl (wrap_vast_phase2 [] (EXAMPLE_VIDEO_CONFIG\<lparr>duration := Some 75\<rparr>))
   \<and> contains ''<Duration>00:00:75</Duration>''
        (projr (wrap_vast_phase2 [] (EXAMPLE_VIDEO_CONFIG\<lparr>duration := Some 75\<rparr>)))\<close>
proof -
  let ?c = "EXAMPLE_VIDEO_CONFIG\<lparr>duration := Some 75\<rparr>"
  have d: "duration ?c = Some 75" by simp
  have s: "length (split_py CHR ''x'' (dimensions ?c)) = 2"
    by (simp add: EXAMPLE_VIDEO_CONFIG_def)
  have f: "format_02d 75 = ''75''" by (simp add: format_02d_def digit_char_def)
  from wrap_vast_phase1_returns [OF d s] obtain w1
    where w1: "wrap_vast_phase1 [] ?c = Inr w1" by blast
  from wrap_vast_phase2_returns [OF d s] obtain w2
    where w2: "wrap_vast_phase2 [] ?c = Inr w2" by blast
  from wrap_vast_phase1_contents [OF w1] f
  have "contains ''<Duration>00:00:75</Duration>'' w1" by (simp del: contains.simps)
  moreover from wrap_vast_phase2_contents [OF w2] f
  have "contains ''<Duration>00:00:75</Duration>'' w2" by (simp del: contains.simps)
  ultimately show ?thesis using w1 w2 by (simp del: contains.simps)
qed

section \<open>Sizes\<close>

lemma replace_py_length:
  "length old \<le> length new \<Longrightarrow> length s \<le> length (replace_py old new s)"
proof (induction "length s" arbitrary: s rule: less_induct)
  case less
  show ?case
  proof (cases s)
    case Nil
    then show ?thesis by simp
  next
    case (Cons c cs)
    show ?thesis
    proof (cases "old = []")
      case True
      have "length cs \<le> length (replace_py old new cs)"
        using less.hyps [of cs] less.prems Cons by simp
      with True Cons show ?thesis by simp
    next
      case False
      show ?thesis
      proof (cases "prefix old (c # cs)")
        case True
        let ?r = "drop (length old) (c # cs)"
        have "length ?r < length s" using False Cons by simp
        then have "length ?r \<le> length (replace_py old new ?r)"
          using less.hyps less.prems by blast
        moreover have "length old \<le> length (c # cs)" using True by (rule prefix_length_le)
        ultimately show ?thesis using True False Cons less.prems by simp
      next
        case np: False
        have "length cs \<le> length (replace_py old new cs)"
          using less.hyps [of cs] less.prems Cons by simp
        with np False Cons show ?thesis by simp
      qed
    qed
  qed
qed

lemma macro_fold_length:
  "\<forall>kv \<in> set tbl. length (fst kv) \<le> length (snd kv) \<Longrightarrow>
     length s \<le> length (foldl macro_step s tbl)"
proof (induction tbl arbitrary: s)
  case Nil
  then show ?case by simp
next
  case (Cons kv tbl)
  have "length s \<le> length (macro_step s kv)"
    using Cons.prems by (simp add: macro_step_def replace_py_length)
  also have "\<dots> \<le> length (foldl macro_step (macro_step s kv) tbl)"
    using Cons by simp
  finally show ?case by simp
qed

lemma inject_amazon_macros_length: "length s \<le> length (inject_amazon_macros s)"
  unfolding inject_amazon_macros_fold
  by (rule macro_fold_length) (simp add: AMAZON_MACROS_def)

lemma display1_0: "\<exists>x \<in> set wrap_display_html5_phase1_0. \<not> is_space x"
proof -
  have "CHR ''<'' \<in> set wrap_display_html5_phase1_0"
    unfolding wrap_display_html5_phase1_0_def by simp
  moreover have "\<not> is_space CHR ''<''" by (simp add: is_space_def)
  ultimately show ?thesis by blast
qed

lemma display1_4: "\<exists>x \<in> set wrap_display_html5_phase1_4. \<not> is_space x"
proof -
  have "CHR ''<'' \<in> set wrap_display_html5_phase1_4"
    unfolding wrap_display_html5_phase1_4_def by simp
  moreover have "\<not> is_space CHR ''<''" by (simp add: is_space_def)
  ultimately show ?thesis by blast
qed

lemma display2_0: "\<exists>x \<in> set wrap_display_html5_phase2_0. \<not> is_space x"
proof -
  have "CHR ''<'' \<in> set wrap_display_html5_phase2_0"
    unfolding wrap_display_html5_phase2_0_def by simp
  moreover have "\<not> is_space CHR ''<''" by (simp add: is_space_def)
  ultimately show ?thesis by blast
qed

lemma display2_8: "\<exists>x \<in> set wrap_display_html5_phase2_8. \<not> is_space x"
proof -
  have "CHR ''<'' \<in> set wrap_display_html5_phase2_8"
    unfolding wrap_display_html5_phase2_8_def by simp
  moreover have "\<not> is_space CHR ''<''" by (simp add: is_space_def)
  ultimately show ?thesis by blast
qed

lemma wrap_display_html5_phase1_length:
  "length code < length (wrap_display_html5_phase1 code config)"
proof -
  let ?m = "cfg_name config @ wrap_display_html5_phase1_1 @ dimensions config
       @ wrap_display_html5_phase1_2 @ format_device_type (device_type config)
       @ wrap_display_html5_phase1_3 @ code"
  from strip_py_middle [OF display1_0 display1_4, of ?m] obtain a' b' where
    "a' \<noteq> []" "strip_py (wrap_display_html5_phase1_0 @ ?m @ wrap_display_html5_phase1_4)
       = a' @ ?m @ b'" by blast
  then show ?thesis by (cases a') (simp_all add: wrap_display_html5_phase1_def)
qed

lemma wrap_display_html5_phase2_length:
  "length code < length (wrap_display_html5_phase2 code config)"
proof -
  let ?m = "cfg_name config @ wrap_display_html5_phase2_1 @ dimensions config
       @ wrap_display_html5_phase2_2 @ format_device_type (device_type config)
       @ wrap_display_html5_phase2_3 @ format_opt (dsp_seat_id (viewability_config config))
       @ wrap_display_html5_phase2_4 @ format_opt (pub_id (viewability_config config))
       @ wrap_display_html5_phase2_5 @ format_opt (dsp_seat_id (viewability_config config))
       @ wrap_display_html5_phase2_6 @ format_opt (pub_id (viewability_config config))
       @ wrap_display_html5_phase2_7 @ code"
  from strip_py_middle [OF display2_0 display2_8, of ?m] obtain a' b' where
    "a' \<noteq> []" "strip_py (wrap_display_html5_phase2_0 @ ?m @ wrap_display_html5_phase2_8)
       = a' @ ?m @ b'" by blast
  then show ?thesis by (cases a') (simp_all add: wrap_display_html5_phase2_def)
qed

lemma wrap_code_display_length:
  "cfg_format config = RUNWAY \<Longrightarrow> wrap_code code config = Inr w \<Longrightarrow> length code < length w"
  using wrap_display_html5_phase1_length wrap_display_html5_phase2_length
  by (auto simp: wrap_code_def split: if_splits)

lemma wrap_vast_phase2_ignores_code: "wrap_vast_phase2 code config = wrap_vast_phase2 [] config"
  by (simp add: wrap_vast_phase2_def)

lemma wrap_vast_phase1_ignores_code: "wrap_vast_phase1 code config = wrap_vast_phase1 [] config"
  by (simp add: wrap_vast_phase1_def)

lemma example_video_wrapper_length:
  "\<exists>w. wrap_vast_phase2 [] EXAMPLE_VIDEO_CONFIG = Inr w \<and> length w \<le> 5935"
proof -
  let ?S = "wrap_vast_phase2_head_0 @ ''PMP_Amazon_RMI_Pre-Roll_Branded_Canvas_15s_phase2''
     @ wrap_vast_phase2_head_1 @ ''https://snippet.kargo.com/snippet/dm/81172''
     @ wrap_vast_phase2_head_2 @ ''15'' @ wrap_vast_phase2_head_3
     @ wrap_vast_phase2_canvas_0 @ ''300'' @ wrap_vast_phase2_canvas_1 @ ''50''
     @ wrap_vast_phase2_canvas_2 @ ''300'' @ wrap_vast_phase2_canvas_3 @ ''50''
     @ wrap_vast_phase2_canvas_4
     @ wrap_vast_phase2_tail_0 @ ''KARGO_DSP_SEAT_001''
     @ wrap_vast_phase2_tail_1 @ ''kargo_publisher_id''
     @ wrap_vast_phase2_tail_2 @ ''PMP_Amazon_RMI_Pre-Roll_Branded_Canvas_15s''
     @ wrap_vast_phase2_tail_3"
  have "wrap_vast_phase2 [] EXAMPLE_VIDEO_CONFIG = Inr (strip_py ?S)"
    by (simp add: wrap_vast_phase2_def EXAMPLE_VIDEO_CONFIG_def Let_def format_opt_def
                  format_02d_def digit_char_def)
  moreover have "length ?S = 5935"
    by (simp add: wrap_vast_phase2_head_0_def wrap_vast_phase2_head_1_def
         wrap_vast_phase2_head_2_def wrap_vast_phase2_head_3_def
         wrap_vast_phase2_canvas_0_def wrap_vast_phase2_canvas_1_def
         wrap_vast_phase2_canvas_2_def wrap_vast_phase2_canvas_3_def
         wrap_vast_phase2_canvas_4_def wrap_vast_phase2_tail_0_def
         wrap_vast_phase2_tail_1_def wrap_vast_phase2_tail_2_def wrap_vast_phase2_tail_3_def)
  moreover have "length (strip_py ?S) \<le> length ?S" by (rule length_strip_py)
  ultimately show ?thesis by (metis (no_types, lifting))
qed

section \<open>Matching, substitution and stripping\<close>

lemma findall_Nil_iff_Cons:
  "findall p (c # cs) = [] \<longleftrightarrow> re_match p (c # cs) = None \<and> findall p cs = []"
  by (auto split: option.splits)

lemma re_sub_no_match: "findall p t = [] \<Longrightarrow> re_sub p r t = t"
  by (induction t) (auto split: option.splits if_splits)


lemma remove_step_fst: "fst (remove_step acc p) = re_sub p [] (fst acc)"
  by (simp add: remove_step_def Let_def re_sub_no_match)

lemma remove_step_snd: "snd (remove_step acc p) = snd acc @ findall p (fst acc)"
  by (simp add: remove_step_def Let_def)

lemma remove_loop_fst:
  "fst (foldl remove_step acc ps) = foldl (\<lambda>t p. re_sub p [] t) (fst acc) ps"
  by (induction ps arbitrary: acc) (simp_all add: remove_step_fst)

lemma remove_loop_grows: "prefix (snd acc) (snd (foldl remove_step acc ps))"
proof (induction ps arbitrary: acc)
  case Nil
  then show ?case by simp
next
  case (Cons p ps)
  have "prefix (snd acc) (snd (remove_step acc p))" by (simp add: remove_step_snd)
  also have "prefix \<dots> (snd (foldl remove_step (remove_step acc p) ps))" by (rule Cons.IH)
  finally show ?case by simp
qed

lemma remove_loop_same:
  "\<forall>p \<in> set ps. findall p (fst acc) = [] \<Longrightarrow> foldl remove_step acc ps = acc"
  by (induction ps) (simp_all add: remove_step_def)

lemma remove_loop_found:
  "\<exists>p \<in> set ps. findall p (fst acc) \<noteq> [] \<Longrightarrow> snd (foldl remove_step acc ps) \<noteq> []"
proof (induction ps arbitrary: acc)
  case Nil
  then show ?case by simp
next
  case (Cons p ps)
  show ?case
  proof (cases "findall p (fst acc) = []")
    case True
    then have "remove_step acc p = acc" by (simp add: remove_step_def)
    with Cons True show ?thesis by auto
  next
    case False
    then have "snd (remove_step acc p) \<noteq> []" by (simp add: remove_step_snd)
    moreover have "prefix (snd (remove_step acc p))
        (snd (foldl remove_step (remove_step acc p) ps))" by (rule remove_loop_grows)
    ultimately show ?thesis by auto
  qed
qed

lemma removed_Nil_iff:
  "snd (remove_ias_tags s) = [] \<longleftrightarrow> list_all (\<lambda>p. findall p s = []) IAS_PATTERNS"
proof
  assume a: "snd (remove_ias_tags s) = []"
  show "list_all (\<lambda>p. findall p s = []) IAS_PATTERNS"
  proof (rule ccontr)
    assume "\<not> list_all (\<lambda>p. findall p s = []) IAS_PATTERNS"
    then have "\<exists>p \<in> set IAS_PATTERNS. findall p (fst (s, [] :: string list)) \<noteq> []"
      by (simp add: list_all_iff)
    from remove_loop_found [OF this] a show False
      by (simp add: remove_ias_tags_def Let_def)
  qed
next
  assume "list_all (\<lambda>p. findall p s = []) IAS_PATTERNS"
  then have "\<forall>p \<in> set IAS_PATTERNS. findall p (fst (s, [] :: string list)) = []"
    by (simp add: list_all_iff)
  from remove_loop_same [OF this] show "snd (remove_ias_tags s) = []"
    by (simp add: remove_ias_tags_def Let_def)
qed

lemma cleaned_when_nothing_removed:
  "snd (remove_ias_tags s) = [] \<Longrightarrow>
     fst (remove_ias_tags s) = strip_py (re_sub blank_lines [CHR 0x0A] s)"
proof -
  assume "snd (remove_ias_tags s) = []"
  then have "\<forall>p \<in> set IAS_PATTERNS. findall p (fst (s, [] :: string list)) = []"
    by (simp add: removed_Nil_iff list_all_iff)
  from remove_loop_same [OF this] show ?thesis
    by (simp add: remove_ias_tags_def Let_def)
qed


lemma strip_py_decomp:
  "dropWhile is_space s
     = strip_py s @ rev (takeWhile is_space (rev (dropWhile is_space s)))"
proof -
  define u where "u = dropWhile is_space s"
  have "rev (takeWhile is_space (rev u) @ dropWhile is_space (rev u)) = rev (rev u)"
    by (simp only: takeWhile_dropWhile_id)
  then have "u = rev (dropWhile is_space (rev u)) @ rev (takeWhile is_space (rev u))"
    by (simp only: rev_append rev_rev_ident)
  then show ?thesis by (simp only: u_def strip_py_def)
qed

lemma strip_py_prefix_of_suffix: "\<exists>a b. s = a @ strip_py s @ b"
proof -
  have "s = takeWhile is_space s @ dropWhile is_space s" by simp
  with strip_py_decomp [of s] show ?thesis by metis
qed

lemma strip_py_ends:
  "strip_py s = [] \<or> (\<not> is_space (hd (strip_py s)) \<and> \<not> is_space (last (strip_py s)))"
proof (cases "strip_py s = []")
  case True
  then show ?thesis by simp
next
  case False
  define u where "u = dropWhile is_space s"
  define v where "v = dropWhile is_space (rev u)"
  have t: "strip_py s = rev v" by (simp only: strip_py_def u_def v_def)
  with False have v: "v \<noteq> []" by simp
  then have "\<not> is_space (hd v)" unfolding v_def by (rule hd_dropWhile)
  then have l: "\<not> is_space (last (strip_py s))" using v t by (simp add: last_rev)
  have "u \<noteq> []"
  proof
    assume "u = []"
    then have "v = []" by (simp add: v_def)
    with v show False by simp
  qed
  then have hu: "\<not> is_space (hd u)" unfolding u_def by (rule hd_dropWhile)
  from strip_py_decomp [of s] have "u = strip_py s @ rev (takeWhile is_space (rev u))"
    by (simp only: u_def)
  then have "hd u = hd (strip_py s)" using False by (metis hd_append2)
  with hu l show ?thesis by simp
qed

lemma strip_py_idem: "strip_py (strip_py s) = strip_py s"
proof (cases "strip_py s = []")
  case True
  have "strip_py [] = []" by (simp add: strip_py_def)
  with True show ?thesis by (simp only:)
next
  case False
  with strip_py_ends [of s] show ?thesis by (intro strip_py_id) auto
qed

section \<open>The whitespace clean-up\<close>

lemma is_space_nl: "is_space (CHR 0x0A)"
  by (simp add: is_space_def)

lemma ws_then_nl_None: "re_match ws_then_nl u = None \<longleftrightarrow> \<not> ws_nl u"
  by (induction u) (auto simp: is_space_nl split: option.splits)

lemma ws_then_nl_Some:
  "re_match ws_then_nl u = Some n \<Longrightarrow> 0 < n \<and> \<not> ws_nl (drop n u)"
proof (induction u arbitrary: n)
  case Nil
  then show ?case by simp
next
  case (Cons c cs)
  show ?case
  proof (cases "re_match ws_then_nl cs")
    case None
    with Cons.prems have "n = 1" by (auto split: if_splits)
    moreover from None have "\<not> ws_nl cs" by (simp add: ws_then_nl_None)
    ultimately show ?thesis by simp
  next
    case (Some m)
    show ?thesis
    proof (cases "is_space c")
      case True
      with Some Cons.prems have "n = Suc m" by simp
      with Cons.IH [OF Some] show ?thesis by simp
    next
      case False
      then have "c \<noteq> CHR 0x0A" using is_space_nl by auto
      with False Cons.prems show ?thesis by simp
    qed
  qed
qed

lemma blank_lines_None:
  "re_match blank_lines (c # cs) = None \<longleftrightarrow> \<not> (c = CHR 0x0A \<and> ws_nl cs)"
  using ws_then_nl_None [of cs] by (auto simp: blank_lines_def)

lemma blank_lines_Nil: "re_match blank_lines [] = None"
  by (simp add: blank_lines_def)

lemma blank_lines_Some:
  "re_match blank_lines (c # cs) = Some n \<Longrightarrow>
     c = CHR 0x0A \<and> 0 < n \<and> \<not> ws_nl (drop n (c # cs))"
proof -
  assume a: "re_match blank_lines (c # cs) = Some n"
  then have c: "c = CHR 0x0A" by (auto simp: blank_lines_def split: if_splits)
  with a obtain m where m: "re_match ws_then_nl cs = Some m" "n = Suc m"
    by (auto simp: blank_lines_def)
  from ws_then_nl_Some [OF m(1)] m(2) c show ?thesis by simp
qed

lemma findall_blank_lines: "findall blank_lines t = [] \<longleftrightarrow> blank_free t"
proof (induction t)
  case Nil
  then show ?case by (simp add: blank_lines_Nil)
next
  case (Cons c cs)
  then show ?case
    by (simp only: findall_Nil_iff_Cons blank_lines_None blank_free.simps)
qed

lemma collapse_Nil: "re_sub blank_lines r [] = []"
  by (simp add: blank_lines_Nil)

lemma collapse_keeps_not_ws_nl:
  "\<not> ws_nl u \<Longrightarrow> \<not> ws_nl (re_sub blank_lines [CHR 0x0A] u)"
proof (induction u)
  case Nil
  then show ?case by (simp add: collapse_Nil del: re_sub.simps)
next
  case (Cons c cs)
  from Cons.prems have c: "c \<noteq> CHR 0x0A" and r: "is_space c \<longrightarrow> \<not> ws_nl cs" by auto
  from c have "re_match blank_lines (c # cs) = None" by (simp add: blank_lines_None)
  then have "re_sub blank_lines [CHR 0x0A] (c # cs) = c # re_sub blank_lines [CHR 0x0A] cs"
    by simp
  with c r Cons.IH show ?case by auto
qed

lemma collapse_blank_free: "blank_free (re_sub blank_lines [CHR 0x0A] t)"
proof (induction "length t" arbitrary: t rule: less_induct)
  case less
  show ?case
  proof (cases t)
    case Nil
    then show ?thesis by (simp add: collapse_Nil del: re_sub.simps)
  next
    case (Cons c cs)
    show ?thesis
    proof (cases "re_match blank_lines (c # cs)")
      case None
      then have e: "re_sub blank_lines [CHR 0x0A] t = c # re_sub blank_lines [CHR 0x0A] cs"
        using Cons by simp
      have "blank_free (re_sub blank_lines [CHR 0x0A] cs)"
        using less.hyps [of cs] Cons by simp
      moreover have "\<not> (c = CHR 0x0A \<and> ws_nl (re_sub blank_lines [CHR 0x0A] cs))"
        using None collapse_keeps_not_ws_nl [of cs] by (auto simp: blank_lines_None)
      ultimately show ?thesis using e by simp
    next
      case (Some n)
      from blank_lines_Some [OF Some] have n: "0 < n" and w: "\<not> ws_nl (drop n (c # cs))"
        by blast+
      from n Some have e: "re_sub blank_lines [CHR 0x0A] t
          = CHR 0x0A # re_sub blank_lines [CHR 0x0A] (drop n (c # cs))"
        using Cons by simp
      have "length (drop n (c # cs)) < length t" using n Cons by simp
      then have "blank_free (re_sub blank_lines [CHR 0x0A] (drop n (c # cs)))"
        by (rule less.hyps)
      moreover have "\<not> ws_nl (re_sub blank_lines [CHR 0x0A] (drop n (c # cs)))"
        using w by (rule collapse_keeps_not_ws_nl)
      ultimately show ?thesis using e by simp
    qed
  qed
qed

lemma ws_nl_append: "ws_nl a \<Longrightarrow> ws_nl (a @ b)"
  by (induction a) auto

lemma blank_free_append2: "blank_free (a @ b) \<Longrightarrow> blank_free b"
  by (induction a) auto

lemma blank_free_append1: "blank_free (a @ b) \<Longrightarrow> blank_free a"
  by (induction a) (auto dest: ws_nl_append)

lemma blank_free_strip_py: "blank_free t \<Longrightarrow> blank_free (strip_py t)"
proof -
  assume a: "blank_free t"
  from strip_py_prefix_of_suffix [of t] obtain x y where "t = x @ strip_py t @ y" by blast
  with a have "blank_free (x @ strip_py t @ y)" by simp
  then have "blank_free (strip_py t @ y)" by (rule blank_free_append2)
  then show ?thesis by (rule blank_free_append1)
qed

lemma remove_ias_tags_fst:
  "fst (remove_ias_tags s)
     = strip_py (re_sub blank_lines [CHR 0x0A]
         (foldl (\<lambda>t p. re_sub p [] t) s IAS_PATTERNS))"
  by (simp add: remove_ias_tags_def Let_def remove_loop_fst)

text \<open>
  C10. remove_ias_tags returns an empty list of removed tags exactly when none of the
  IAS patterns matches the input. It is not the identity even then: the cleaned text is
  the input with the blank lines collapsed and the ends stripped. For every input, the
  cleaned text has no run of blank lines left (the pattern of the clean-up matches
  nowhere in it) and neither starts nor ends with whitespace.
\<close>

theorem C10_nothing_removed_and_whitespace:
  "(snd (remove_ias_tags s) = [] \<longleftrightarrow> list_all (\<lambda>p. findall p s = []) IAS_PATTERNS)
   \<and> (snd (remove_ias_tags s) = [] \<longrightarrow>
        fst (remove_ias_tags s) = strip_py (re_sub blank_lines [CHR 0x0A] s))
   \<and> findall blank_lines (fst (remove_ias_tags s)) = []
   \<and> strip_py (fst (remove_ias_tags s)) = fst (remove_ias_tags s)
   \<and> (fst (remove_ias_tags s) = []
       \<or> (\<not> is_space (hd (fst (remove_ias_tags s)))
          \<and> \<not> is_space (last (fst (remove_ias_tags s)))))"
proof (intro conjI impI)
  show "snd (remove_ias_tags s) = [] \<longleftrightarrow> list_all (\<lambda>p. findall p s = []) IAS_PATTERNS"
    by (rule removed_Nil_iff)
  show "fst (remove_ias_tags s) = strip_py (re_sub blank_lines [CHR 0x0A] s)"
    if "snd (remove_ias_tags s) = []"
    using that by (rule cleaned_when_nothing_removed)
  show "findall blank_lines (fst (remove_ias_tags s)) = []"
    unfolding findall_blank_lines remove_ias_tags_fst
    by (intro blank_free_strip_py collapse_blank_free)
  show "strip_py (fst (remove_ias_tags s)) = fst (remove_ias_tags s)"
    unfolding remove_ias_tags_fst by (rule strip_py_idem)
  show "fst (remove_ias_tags s) = []
       \<or> (\<not> is_space (hd (fst (remove_ias_tags s)))
          \<and> \<not> is_space (last (fst (remove_ias_tags s))))"
    unfolding remove_ias_tags_fst by (rule strip_py_ends)
qed

lemmas re_eval = remove_ias_tags_def remove_step_def IAS_PATTERNS_def lit_ci_def
  lower_ascii_def not_gt_def any_char_def url_tail_def is_space_def blank_lines_def
  strip_py_def

lemma example_blank_lines:
  "remove_ias_tags [CHR '' '', CHR ''a'', CHR 0x0A, CHR '' '', CHR 0x0A, CHR 0x0A, CHR ''b'', CHR '' '']
     = ([CHR ''a'', CHR 0x0A, CHR ''b''], [])"
  by (simp add: re_eval)

theorem C10_nothing_removed_and_whitespace_witness:
  "snd (remove_ias_tags [CHR '' '', CHR ''a'', CHR 0x0A, CHR '' '', CHR 0x0A, CHR 0x0A,
                          CHR ''b'', CHR '' '']) = []
   \<and> fst (remove_ias_tags [CHR '' '', CHR ''a'', CHR 0x0A, CHR '' '', CHR 0x0A, CHR 0x0A,
                            CHR ''b'', CHR '' '']) = [CHR ''a'', CHR 0x0A, CHR ''b'']
   \<and> fst (remove_ias_tags [CHR '' '', CHR ''a'', CHR 0x0A, CHR '' '', CHR 0x0A, CHR 0x0A,
                            CHR ''b'', CHR '' ''])
       \<noteq> [CHR '' '', CHR ''a'', CHR 0x0A, CHR '' '', CHR 0x0A, CHR 0x0A, CHR ''b'', CHR '' '']"
proof -
  let ?s = "[CHR '' '', CHR ''a'', CHR 0x0A, CHR '' '', CHR 0x0A, CHR 0x0A, CHR ''b'', CHR '' '']"
  have n: "snd (remove_ias_tags ?s) = []" by (simp add: example_blank_lines)
  from C10_nothing_removed_and_whitespace [of ?s] n
  have "fst (remove_ias_tags ?s) = strip_py (re_sub blank_lines [CHR 0x0A] ?s)" by blast
  also have "\<dots> = [CHR ''a'', CHR 0x0A, CHR ''b'']"
    by (simp add: blank_lines_def strip_py_def is_space_def)
  finally have f: "fst (remove_ias_tags ?s) = [CHR ''a'', CHR 0x0A, CHR ''b'']" .
  from n f show ?thesis by simp
qed

section \<open>Removal of the vendor tags\<close>

lemma re_sub_prefix_blocked:
  assumes nil: "re_match p [] = None"
    and blk: "\<And>t n. re_match p t = Some n \<Longrightarrow>
        0 < n \<and> (r @ re_sub p r (drop n t) = []
                 \<or> lower_ascii (hd (r @ re_sub p r (drop n t))) \<notin> K)"
  shows "set k \<subseteq> K \<Longrightarrow> prefix k (map lower_ascii (re_sub p r t)) \<Longrightarrow>
         prefix k (map lower_ascii t)"
proof (induction t arbitrary: k)
  case Nil
  then show ?case using nil by simp
next
  case (Cons c cs)
  show ?case
  proof (cases k)
    case Nil
    then show ?thesis by simp
  next
    case k: (Cons x k')
    show ?thesis
    proof (cases "re_match p (c # cs)")
      case None
      with Cons.prems k have "x = lower_ascii c"
        "prefix k' (map lower_ascii (re_sub p r cs))" by auto
      moreover have "set k' \<subseteq> K" using Cons.prems k by simp
      ultimately show ?thesis using Cons.IH [of k'] k by simp
    next
      case (Some n)
      from blk [OF Some] have n: "0 < n"
        and b: "r @ re_sub p r (drop n (c # cs)) = []
                 \<or> lower_ascii (hd (r @ re_sub p r (drop n (c # cs)))) \<notin> K" by blast+
      from Some n have e: "re_sub p r (c # cs) = r @ re_sub p r (drop n (c # cs))" by simp
      from Cons.prems k have "x \<in> K" by simp
      moreover from Cons.prems(2) k e
      have "r @ re_sub p r (drop n (c # cs)) \<noteq> []
            \<and> lower_ascii (hd (r @ re_sub p r (drop n (c # cs)))) = x"
        by (cases "r @ re_sub p r (drop n (c # cs))") auto
      ultimately show ?thesis using b by auto
    qed
  qed
qed

lemma re_sub_clears:
  assumes nil: "re_match p [] = None"
    and blk: "\<And>t n. re_match p t = Some n \<Longrightarrow>
        0 < n \<and> (r @ re_sub p r (drop n t) = []
                 \<or> lower_ascii (hd (r @ re_sub p r (drop n t))) \<notin> set k)"
    and r: "length r \<le> 1"
    and k: "k \<noteq> []"
  shows "(\<forall>u. prefix k (map lower_ascii u) \<longrightarrow> re_match p u \<noteq> None)
           \<or> \<not> contains k (map lower_ascii t) \<Longrightarrow>
         \<not> contains k (map lower_ascii (re_sub p r t))"
proof (induction "length t" arbitrary: t rule: less_induct)
  case less
  show ?case
  proof (cases t)
    case Nil
    then show ?thesis using nil k by simp
  next
    case (Cons c cs)
    from k obtain x k' where xk: "k = x # k'" by (cases k) auto
    show ?thesis
    proof (cases "re_match p (c # cs)")
      case None
      have e: "re_sub p r t = c # re_sub p r cs" using None Cons by simp
      have np: "\<not> prefix k (map lower_ascii (c # cs))"
      proof
        assume a: "prefix k (map lower_ascii (c # cs))"
        from less.prems show False
        proof
          assume "\<forall>u. prefix k (map lower_ascii u) \<longrightarrow> re_match p u \<noteq> None"
          with a have "re_match p (c # cs) \<noteq> None" by blast
          with None show False by simp
        next
          assume "\<not> contains k (map lower_ascii t)"
          with a Cons show False by simp
        qed
      qed
      have "(\<forall>u. prefix k (map lower_ascii u) \<longrightarrow> re_match p u \<noteq> None)
           \<or> \<not> contains k (map lower_ascii cs)" using less.prems Cons by auto
      then have ih: "\<not> contains k (map lower_ascii (re_sub p r cs))"
        using less.hyps [of cs] Cons by simp
      have "\<not> prefix k (map lower_ascii (c # re_sub p r cs))"
      proof
        assume a: "prefix k (map lower_ascii (c # re_sub p r cs))"
        with xk have "x = lower_ascii c" "prefix k' (map lower_ascii (re_sub p r cs))"
          by auto
        moreover have "set k' \<subseteq> set k" using xk by auto
        ultimately have "prefix k' (map lower_ascii cs)"
          using re_sub_prefix_blocked [OF nil blk, of k' cs] by blast
        with \<open>x = lower_ascii c\<close> xk np show False by simp
      qed
      with ih e show ?thesis by simp
    next
      case (Some n)
      from blk [OF Some] have n: "0 < n"
        and b: "r @ re_sub p r (drop n (c # cs)) = []
                 \<or> lower_ascii (hd (r @ re_sub p r (drop n (c # cs)))) \<notin> set k" by blast+
      from Some n Cons have e: "re_sub p r t = r @ re_sub p r (drop n (c # cs))" by simp
      have len: "length (drop n (c # cs)) < length t" using n Cons by simp
      have "contains k (map lower_ascii (drop n t)) \<Longrightarrow> contains k (map lower_ascii t)"
        using contains_drop [of k n "map lower_ascii t"] by (simp only: drop_map)
      with less.prems Cons
      have "(\<forall>u. prefix k (map lower_ascii u) \<longrightarrow> re_match p u \<noteq> None)
           \<or> \<not> contains k (map lower_ascii (drop n (c # cs)))"
        by blast
      with less.hyps [OF len]
      have ih: "\<not> contains k (map lower_ascii (re_sub p r (drop n (c # cs))))" by blast
      show ?thesis
      proof (cases r)
        case Nil
        with ih e show ?thesis by simp
      next
        case (Cons y r')
        with r have r': "r = [y]" by simp
        with b have "lower_ascii y \<notin> set k" by simp
        then have "lower_ascii y \<noteq> x" using xk by auto
        with ih e r' xk show ?thesis by simp
      qed
    qed
  qed
qed


lemma re_match_lit_ci:
  "re_match (lit_ci d @ rest) t =
     (if prefix (map lower_ascii d) (map lower_ascii t)
      then map_option (\<lambda>n. length d + n) (re_match rest (drop (length d) t))
      else None)"
proof (induction d arbitrary: t)
  case Nil
  then show ?case by (cases "re_match rest t") (simp_all add: lit_ci_def)
next
  case (Cons x d)
  have u: "lit_ci (x # d) @ rest = One (\<lambda>c. lower_ascii c = lower_ascii x) # (lit_ci d @ rest)"
    by (simp add: lit_ci_def)
  show ?case
  proof (cases t)
    case Nil
    then show ?thesis by (simp add: u)
  next
    case (Cons c cs)
    then show ?thesis
      using Cons.IH [of cs]
      by (auto simp: u option.map_comp comp_def)
  qed
qed

lemma re_match_Many: "re_match [Many q] t = Some (length (takeWhile q t))"
  by (induction t) auto

lemma re_match_host:
  "re_match (lit_ci d @ [Many q]) t =
     (if prefix (map lower_ascii d) (map lower_ascii t)
      then Some (length d + length (takeWhile q (drop (length d) t)))
      else None)"
  by (simp add: re_match_lit_ci re_match_Many)

lemma host_blocked:
  assumes d: "d \<noteq> []"
    and dl: "\<And>c. \<not> q c \<Longrightarrow> lower_ascii c \<noteq> lower_ascii (hd d) \<and> lower_ascii c \<notin> K"
    and m: "re_match (lit_ci d @ [Many q]) t = Some n"
  shows "0 < n \<and> ([] @ re_sub (lit_ci d @ [Many q]) [] (drop n t) = []
            \<or> lower_ascii (hd ([] @ re_sub (lit_ci d @ [Many q]) [] (drop n t))) \<notin> K)"
proof -
  let ?p = "lit_ci d @ [Many q]"
  let ?u = "drop (length d) t"
  from m have n: "n = length d + length (takeWhile q ?u)"
    by (simp add: re_match_host split: if_splits)
  then have "drop n t = drop (length (takeWhile q ?u)) ?u" by (simp add: add.commute)
  then have rest: "drop n t = dropWhile q ?u" by (simp add: dropWhile_eq_drop)
  have pos: "0 < n" using n d by simp
  show ?thesis
  proof (cases "dropWhile q ?u")
    case Nil
    with rest have dn: "drop n t = []" by (simp only:)
    have "re_match ?p [] = None" using d by (cases d) (simp_all add: re_match_host)
    then have "re_sub ?p [] [] = []" by simp
    with pos show ?thesis unfolding dn by simp
  next
    case (Cons c cs)
    then have "\<not> q c" by (metis hd_dropWhile list.sel(1) list.simps(3))
    from dl [OF this] have a: "lower_ascii c \<noteq> lower_ascii (hd d)" and b: "lower_ascii c \<notin> K"
      by blast+
    from a d have "\<not> prefix (map lower_ascii d) (map lower_ascii (c # cs))"
      by (cases d) auto
    then have "re_match ?p (c # cs) = None" by (simp add: re_match_host)
    then have "re_sub ?p [] (c # cs) = c # re_sub ?p [] cs" by simp
    with Cons rest pos b show ?thesis by simp
  qed
qed

lemma is_space_cases:
  "is_space c \<Longrightarrow>
   list_all P [CHR 0x09, CHR 0x0A, CHR 0x0B, CHR 0x0C, CHR 0x0D, CHR 0x1C, CHR 0x1D,
                CHR 0x1E, CHR 0x1F, CHR 0x20, CHR 0x85, CHR 0xA0] \<Longrightarrow> P c"
  unfolding is_space_def list_all_iff by blast

lemma delimiter_cases:
  "\<not> url_tail c \<Longrightarrow>
   list_all P [CHR 0x09, CHR 0x0A, CHR 0x0B, CHR 0x0C, CHR 0x0D, CHR 0x1C, CHR 0x1D,
                CHR 0x1E, CHR 0x1F, CHR 0x20, CHR 0x85, CHR 0xA0] \<Longrightarrow>
   P (CHR 0x22) \<Longrightarrow> P (CHR ''>'') \<Longrightarrow> P c"
  using is_space_cases [of c P] unfolding url_tail_def by blast

lemma lower_pixel: "map lower_ascii ''pixel.adsafeprotected.com'' = ''pixel.adsafeprotected.com''"
  by (simp add: lower_ascii_def)

lemma lower_fw: "map lower_ascii ''fw.adsafeprotected.com'' = ''fw.adsafeprotected.com''"
  by (simp add: lower_ascii_def)

lemma delimiter_not_in_host:
  assumes "\<not> url_tail c"
  shows "lower_ascii c \<notin> set ''pixel.adsafeprotected.com''
     \<and> lower_ascii c \<notin> set ''fw.adsafeprotected.com''"
  by (rule delimiter_cases [OF assms]) (simp_all add: lower_ascii_def)

lemma newline_not_in_host:
  "lower_ascii (CHR 0x0A) \<notin> set ''pixel.adsafeprotected.com''
   \<and> lower_ascii (CHR 0x0A) \<notin> set ''fw.adsafeprotected.com''"
  by (simp add: lower_ascii_def)

lemma host_heads:
  "lower_ascii (hd ''pixel.adsafeprotected.com'') \<in> set ''pixel.adsafeprotected.com''
   \<and> lower_ascii (hd ''fw.adsafeprotected.com'') \<in> set ''fw.adsafeprotected.com''"
  by (simp add: lower_ascii_def)

lemma host_sub_clears:
  assumes kd: "k = map lower_ascii d" and d: "d \<noteq> []"
    and dl: "\<And>c. \<not> q c \<Longrightarrow> lower_ascii c \<noteq> lower_ascii (hd d) \<and> lower_ascii c \<notin> set k"
  shows "\<not> contains k (map lower_ascii (re_sub (lit_ci d @ [Many q]) [] t))"
proof -
  let ?p = "lit_ci d @ [Many q]"
  have nil: "re_match ?p [] = None" using d by (cases d) (simp_all add: re_match_host)
  have k: "k \<noteq> []" using kd d by simp
  have m: "\<forall>u. prefix k (map lower_ascii u) \<longrightarrow> re_match ?p u \<noteq> None"
    by (simp add: re_match_host kd)
  show ?thesis
    by (rule re_sub_clears [OF nil host_blocked [OF d dl] _ k]) (use m in simp_all)
qed

lemma host_sub_keeps:
  assumes d: "d \<noteq> []" and k: "k \<noteq> []"
    and dl: "\<And>c. \<not> q c \<Longrightarrow> lower_ascii c \<noteq> lower_ascii (hd d) \<and> lower_ascii c \<notin> set k"
    and h: "\<not> contains k (map lower_ascii t)"
  shows "\<not> contains k (map lower_ascii (re_sub (lit_ci d @ [Many q]) [] t))"
proof -
  let ?p = "lit_ci d @ [Many q]"
  have nil: "re_match ?p [] = None" using d by (cases d) (simp_all add: re_match_host)
  show ?thesis
    by (rule re_sub_clears [OF nil host_blocked [OF d dl] _ k]) (use h in simp_all)
qed

lemma collapse_keeps:
  assumes k: "k \<noteq> []" and nl: "lower_ascii (CHR 0x0A) \<notin> set k"
    and h: "\<not> contains k (map lower_ascii t)"
  shows "\<not> contains k (map lower_ascii (re_sub blank_lines [CHR 0x0A] t))"
proof -
  have blk: "0 < n \<and> ([CHR 0x0A] @ re_sub blank_lines [CHR 0x0A] (drop n u) = []
      \<or> lower_ascii (hd ([CHR 0x0A] @ re_sub blank_lines [CHR 0x0A] (drop n u))) \<notin> set k)"
    if "re_match blank_lines u = Some n" for u n
  proof (cases u)
    case Nil
    with that show ?thesis by (simp add: blank_lines_Nil)
  next
    case (Cons c cs)
    with that blank_lines_Some [of c cs n] nl show ?thesis by simp
  qed
  show ?thesis
    by (rule re_sub_clears [OF blank_lines_Nil blk _ k]) (use h in simp_all)
qed

lemma strip_py_keeps:
  "\<not> contains k (map lower_ascii t) \<Longrightarrow> \<not> contains k (map lower_ascii (strip_py t))"
proof
  assume n: "\<not> contains k (map lower_ascii t)"
    and c: "contains k (map lower_ascii (strip_py t))"
  from strip_py_prefix_of_suffix [of t] obtain a b where t: "t = a @ strip_py t @ b" by blast
  from c have "contains k (map lower_ascii a @ map lower_ascii (strip_py t) @ map lower_ascii b)"
    by (intro contains_append2 contains_append1)
  then have "contains k (map lower_ascii (a @ strip_py t @ b))" by simp
  with t n show False by simp
qed

lemma remove_loop_snd:
  "snd (foldl remove_step acc ps) =
     snd acc @ concat (map (\<lambda>i. findall (ps ! i)
                  (foldl (\<lambda>t p. re_sub p [] t) (fst acc) (take i ps))) [0..<length ps])"
proof (induction ps arbitrary: acc)
  case Nil
  then show ?case by simp
next
  case (Cons p ps)
  have "[0..<length (p # ps)] = 0 # map Suc [0..<length ps]"
    by (simp add: upt_conv_Cons map_Suc_upt del: upt_Suc)
  then show ?case
    by (simp add: Cons.IH remove_step_fst remove_step_snd comp_def del: upt_Suc)
qed

text \<open>
  C5 (amended). The cleaned text that remove_ias_tags returns has no occurrence, in any
  letter case, of the host names pixel.adsafeprotected.com and fw.adsafeprotected.com,
  and the list of removed tags holds, pattern by pattern, the matches found in the text
  that the patterns before it have left.
\<close>

theorem C5_hosts_removed:
  "\<not> contains ''pixel.adsafeprotected.com'' (map lower_ascii (fst (remove_ias_tags s)))
   \<and> \<not> contains ''fw.adsafeprotected.com'' (map lower_ascii (fst (remove_ias_tags s)))
   \<and> snd (remove_ias_tags s) =
       concat (map (\<lambda>i. findall (IAS_PATTERNS ! i)
                  (foldl (\<lambda>t p. re_sub p [] t) s (take i IAS_PATTERNS)))
               [0..<length IAS_PATTERNS])"
proof -
  let ?d4 = "''pixel.adsafeprotected.com''" and ?d5 = "''fw.adsafeprotected.com''"
  let ?p4 = "lit_ci ?d4 @ [Many url_tail]" and ?p5 = "lit_ci ?d5 @ [Many url_tail]"
  define s3 where "s3 = foldl (\<lambda>t p. re_sub p [] t) s (take 3 IAS_PATTERNS)"
  have e: "foldl (\<lambda>t p. re_sub p [] t) s IAS_PATTERNS = re_sub ?p5 [] (re_sub ?p4 [] s3)"
    by (simp add: s3_def IAS_PATTERNS_def)
  have dl4: "lower_ascii c \<noteq> lower_ascii (hd ?d4) \<and> lower_ascii c \<notin> set ?d4"
    if "\<not> url_tail c" for c
    using delimiter_not_in_host [OF that] host_heads by metis
  have dl5: "lower_ascii c \<noteq> lower_ascii (hd ?d5) \<and> lower_ascii c \<notin> set ?d5"
    if "\<not> url_tail c" for c
    using delimiter_not_in_host [OF that] host_heads by metis
  have dl54: "lower_ascii c \<noteq> lower_ascii (hd ?d5) \<and> lower_ascii c \<notin> set ?d4"
    if "\<not> url_tail c" for c
    using dl4 [OF that] dl5 [OF that] by blast
  have a4: "\<not> contains ?d4 (map lower_ascii (re_sub ?p4 [] s3))"
    by (rule host_sub_clears [OF lower_pixel [symmetric] _ dl4]) simp_all
  have b4: "\<not> contains ?d4 (map lower_ascii (re_sub ?p5 [] (re_sub ?p4 [] s3)))"
    by (rule host_sub_keeps [OF _ _ dl54 a4]) simp_all
  have b5: "\<not> contains ?d5 (map lower_ascii (re_sub ?p5 [] (re_sub ?p4 [] s3)))"
    by (rule host_sub_clears [OF lower_fw [symmetric] _ dl5]) simp_all
  have c4: "\<not> contains ?d4 (map lower_ascii (fst (remove_ias_tags s)))"
    unfolding remove_ias_tags_fst e
    using newline_not_in_host b4 by (intro strip_py_keeps collapse_keeps) simp_all
  have c5: "\<not> contains ?d5 (map lower_ascii (fst (remove_ias_tags s)))"
    unfolding remove_ias_tags_fst e
    using newline_not_in_host b5 by (intro strip_py_keeps collapse_keeps) simp_all
  have l: "snd (remove_ias_tags s) =
       concat (map (\<lambda>i. findall (IAS_PATTERNS ! i)
                  (foldl (\<lambda>t p. re_sub p [] t) s (take i IAS_PATTERNS)))
               [0..<length IAS_PATTERNS])"
    using remove_loop_snd [of "(s, [])" IAS_PATTERNS]
    by (simp add: remove_ias_tags_def Let_def)
  from c4 c5 l show ?thesis by blast
qed

text \<open>
  The claim C5 as stated fails for an image tag followed by the bare domain: the domain
  stays in the cleaned text, and the list has one entry although two patterns match the
  input (the host inside the tag is gone when its pattern is tried).
\<close>

theorem C5_bare_domain_counterexample:
  "remove_ias_tags ''<img pixel.adsafeprotected.com> adsafeprotected.com''
     = (''adsafeprotected.com'', [''<img pixel.adsafeprotected.com>''])
   \<and> contains ''adsafeprotected.com''
        (fst (remove_ias_tags ''<img pixel.adsafeprotected.com> adsafeprotected.com''))
   \<and> length (snd (remove_ias_tags ''<img pixel.adsafeprotected.com> adsafeprotected.com''))
       < sum_list (map (\<lambda>p. length (findall p
             ''<img pixel.adsafeprotected.com> adsafeprotected.com'')) IAS_PATTERNS)"
proof -
  have r: "remove_ias_tags ''<img pixel.adsafeprotected.com> adsafeprotected.com''
     = (''adsafeprotected.com'', [''<img pixel.adsafeprotected.com>''])"
    by (simp add: re_eval)
  have n: "sum_list (map (\<lambda>p. length (findall p
             ''<img pixel.adsafeprotected.com> adsafeprotected.com'')) IAS_PATTERNS) = 2"
    by (simp add: re_eval)
  from r n show ?thesis by simp
qed

section \<open>Sizes of the transformed code\<close>

lemma findall_first_char:
  "\<forall>c \<in> set t. lower_ascii c \<noteq> lower_ascii x \<Longrightarrow> findall (lit_ci (x # d) @ r) t = []"
  by (induction t) (simp_all add: lit_ci_def)

lemma whole_match:
  "s \<noteq> [] \<Longrightarrow> re_match p s = Some (length s) \<Longrightarrow> re_match p [] = None \<Longrightarrow>
     findall p s = [s] \<and> re_sub p r s = r"
  by (cases s) simp_all

lemma replace_py_head:
  "old \<noteq> [] \<Longrightarrow> replace_py old new (old @ r) = new @ replace_py old new r"
  by (cases old) simp_all

lemma replace_py_repeats:
  "old \<noteq> [] \<Longrightarrow>
     replace_py old new (concat (replicate n old)) = concat (replicate n new)"
  by (induction n) (simp_all add: replace_py_head)

lemma contains_repeats:
  assumes k: "d \<notin> set rest" and a: "d \<notin> set a" and cl: "clash (d # rest) (d # a)"
  shows "\<not> contains (d # rest) (concat (replicate n (d # a)))"
proof (induction n)
  case 0
  show ?case by simp
next
  case (Suc n)
  let ?R = "concat (replicate n (d # a))"
  show ?case
  proof
    assume "contains (d # rest) (concat (replicate (Suc n) (d # a)))"
    then have "contains (d # rest) ((d # a) @ ?R)" by simp
    from contains_append_cases [OF this] Suc
    obtain j where j: "j < length (d # a)" and p: "prefix (d # rest) (drop j (d # a) @ ?R)"
      by blast
    show False
    proof (cases j)
      case 0
      with p have "prefix (d # rest) ((d # a) @ ?R)" by simp
      with clash_not_prefix [OF cl] show False by blast
    next
      case (Suc i)
      with j have i: "i < length a" by simp
      then have "drop i a = a ! i # drop (Suc i) a" by (simp add: Cons_nth_drop_Suc)
      with p Suc have "d = a ! i" by simp
      with i a show False by (metis nth_mem)
    qed
  qed
qed

lemma transform_snippet_sizes:
  assumes "wrap_code (fst (prepare_code e (resp_snippet_code resp) config)) config = Inr code"
  shows "\<not> isl (transform_snippet e resp config)
     \<and> fst (projr (transform_snippet e resp config)) = code
     \<and> original_snippet_size (snd (projr (transform_snippet e resp config)))
         = length (resp_snippet_code resp)
     \<and> processed_snippet_size (snd (projr (transform_snippet e resp config))) = length code"
proof -
  from transform_snippet_wrapped [OF assms] obtain md
    where t: "transform_snippet e resp config = Inr (code, md)" by blast
  from transform_snippet_Inr [OF t] t show ?thesis by simp
qed

lemma remove_step_none: "findall p (fst acc) = [] \<Longrightarrow> remove_step acc p = acc"
  by (simp add: remove_step_def)

lemma ias_pixel_removed:
  "remove_ias_tags (''pixel.adsafeprotected.com'' @ CHR ''/'' # replicate n CHR ''a'')
     = ([], [''pixel.adsafeprotected.com'' @ CHR ''/'' # replicate n CHR ''a''])"
proof -
  define s where "s = ''pixel.adsafeprotected.com'' @ CHR ''/'' # replicate n CHR ''a''"
  let ?p4 = "lit_ci ''pixel.adsafeprotected.com'' @ [Many url_tail]"
  let ?p5 = "lit_ci ''fw.adsafeprotected.com'' @ [Many url_tail]"
  have lt: "\<forall>c \<in> set s. lower_ascii c \<noteq> lower_ascii CHR ''<''"
    by (auto simp: s_def lower_ascii_def)
  have f1: "findall (lit_ci ''<img'' @ [Many not_gt] @ lit_ci ''adsafeprotected''
               @ [Many not_gt] @ lit_ci ''>'') s = []"
    using lt by (rule findall_first_char)
  have f2: "findall (lit_ci ''<script'' @ [Many not_gt] @ lit_ci ''adsafeprotected''
               @ [Many not_gt] @ lit_ci ''>'' @ [Few any_char] @ lit_ci ''</script>'') s = []"
    using lt by (rule findall_first_char)
  have f3: "findall (lit_ci ''<script'' @ [Many not_gt] @ lit_ci ''fw.adsafeprotected''
               @ [Many not_gt] @ lit_ci ''>'' @ [Few any_char] @ lit_ci ''</script>'') s = []"
    using lt by (rule findall_first_char)
  have tl: "takeWhile url_tail (CHR ''/'' # replicate n CHR ''a'') = CHR ''/'' # replicate n CHR ''a''"
    by (simp add: url_tail_def is_space_def takeWhile_replicate)
  have pre: "prefix (map lower_ascii ''pixel.adsafeprotected.com'') (map lower_ascii s)"
    unfolding s_def map_append by simp
  have dr: "drop (length ''pixel.adsafeprotected.com'') s = CHR ''/'' # replicate n CHR ''a''"
    unfolding s_def by simp
  have "re_match ?p4 s = Some (length ''pixel.adsafeprotected.com''
           + length (CHR ''/'' # replicate n CHR ''a''))"
    unfolding re_match_host using pre by (simp only: dr tl if_True)
  also have "length ''pixel.adsafeprotected.com'' + length (CHR ''/'' # replicate n CHR ''a'')
      = length s" unfolding s_def by simp
  finally have m4: "re_match ?p4 s = Some (length s)" .
  have n4: "re_match ?p4 [] = None" by (simp add: re_match_host)
  have ne: "s \<noteq> []" by (simp add: s_def)
  from whole_match [OF ne m4 n4, of "[]"]
  have w4: "findall ?p4 s = [s]" "re_sub ?p4 [] s = []" by simp_all
  have n5: "re_match ?p5 [] = None" by (simp add: re_match_host)
  then have f5: "findall ?p5 [] = []" by simp
  have r1: "remove_step (s, []) (lit_ci ''<img'' @ [Many not_gt] @ lit_ci ''adsafeprotected''
               @ [Many not_gt] @ lit_ci ''>'') = (s, [])"
    by (rule remove_step_none) (simp only: fst_conv f1)
  have r2: "remove_step (s, []) (lit_ci ''<script'' @ [Many not_gt] @ lit_ci ''adsafeprotected''
               @ [Many not_gt] @ lit_ci ''>'' @ [Few any_char] @ lit_ci ''</script>'') = (s, [])"
    by (rule remove_step_none) (simp only: fst_conv f2)
  have r3: "remove_step (s, []) (lit_ci ''<script'' @ [Many not_gt] @ lit_ci ''fw.adsafeprotected''
               @ [Many not_gt] @ lit_ci ''>'' @ [Few any_char] @ lit_ci ''</script>'') = (s, [])"
    by (rule remove_step_none) (simp only: fst_conv f3)
  have r4: "remove_step (s, []) ?p4 = ([], [s])"
    by (simp only: remove_step_def Let_def fst_conv snd_conv w4 append_Nil) simp
  have r5: "remove_step ([], [s]) ?p5 = ([], [s])"
    by (rule remove_step_none) (simp only: fst_conv f5)
  have "foldl remove_step (s, []) IAS_PATTERNS = ([], [s])"
    unfolding IAS_PATTERNS_def by (simp only: foldl_Cons foldl_Nil r1 r2 r3 r4 r5)
  then have "remove_ias_tags s = ([], [s])"
    by (simp add: remove_ias_tags_def collapse_Nil strip_py_def del: re_sub.simps)
  then show ?thesis by (simp only: s_def)
qed

lemma example_display1_wrapper_length:
  "length (wrap_display_html5_phase1 [] EXAMPLE_RUNWAY_CONFIG) \<le> 1353"
proof -
  let ?S = "wrap_display_html5_phase1_0 @ ''PMP_Amazon_RMI_CORE_Runway_Anim_GE_v2_Mobile''
       @ wrap_display_html5_phase1_1 @ ''320x50''
       @ wrap_display_html5_phase1_2 @ ''DeviceType.MOBILE''
       @ wrap_display_html5_phase1_3 @ []
       @ wrap_display_html5_phase1_4"
  have "wrap_display_html5_phase1 [] EXAMPLE_RUNWAY_CONFIG = strip_py ?S"
    by (simp add: wrap_display_html5_phase1_def EXAMPLE_RUNWAY_CONFIG_def format_device_type_def)
  moreover have "length ?S = 1353"
    by (simp add: wrap_display_html5_phase1_0_def wrap_display_html5_phase1_1_def
          wrap_display_html5_phase1_2_def wrap_display_html5_phase1_3_def
          wrap_display_html5_phase1_4_def)
  moreover have "length (strip_py ?S) \<le> length ?S" by (rule length_strip_py)
  ultimately show ?thesis by (metis (no_types, lifting))
qed

lemma example_display2_wrapper_length:
  "length (wrap_display_html5_phase2 code
      (EXAMPLE_RUNWAY_CONFIG\<lparr>viewability_config := viewability_config EXAMPLE_VIDEO_CONFIG\<rparr>))
     \<le> 2025 + length code"
proof -
  let ?S = "wrap_display_html5_phase2_0 @ ''PMP_Amazon_RMI_CORE_Runway_Anim_GE_v2_Mobile''
       @ wrap_display_html5_phase2_1 @ ''320x50''
       @ wrap_display_html5_phase2_2 @ ''DeviceType.MOBILE''
       @ wrap_display_html5_phase2_3 @ ''KARGO_DSP_SEAT_001''
       @ wrap_display_html5_phase2_4 @ ''kargo_publisher_id''
       @ wrap_display_html5_phase2_5 @ ''KARGO_DSP_SEAT_001''
       @ wrap_display_html5_phase2_6 @ ''kargo_publisher_id''
       @ wrap_display_html5_phase2_7 @ code
       @ wrap_display_html5_phase2_8"
  have "wrap_display_html5_phase2 code
      (EXAMPLE_RUNWAY_CONFIG\<lparr>viewability_config := viewability_config EXAMPLE_VIDEO_CONFIG\<rparr>)
      = strip_py ?S"
    by (simp add: wrap_display_html5_phase2_def EXAMPLE_RUNWAY_CONFIG_def
          EXAMPLE_VIDEO_CONFIG_def format_device_type_def format_opt_def)
  moreover have "length ?S = 2025 + length code"
    by (simp add: wrap_display_html5_phase2_0_def wrap_display_html5_phase2_1_def
          wrap_display_html5_phase2_2_def wrap_display_html5_phase2_3_def
          wrap_display_html5_phase2_4_def wrap_display_html5_phase2_5_def
          wrap_display_html5_phase2_6_def wrap_display_html5_phase2_7_def
          wrap_display_html5_phase2_8_def)
  moreover have "length (strip_py ?S) \<le> length ?S" by (rule length_strip_py)
  ultimately show ?thesis by (metis (no_types, lifting))
qed

lemma cache_buster_repeats:
  "inject_cache_buster t
       (inject_amazon_macros (concat (replicate n ''${AMAZON_CACHEBUSTER}''))) None
     = concat (replicate n (generate_cache_buster t))"
proof -
  define s where "s = concat (replicate n ''${AMAZON_CACHEBUSTER}'')"
  have nk: "\<not> contains (CHR ''$'' # rest) s"
    if "CHR ''$'' \<notin> set rest" "clash (CHR ''$'' # rest) ''${AMAZON_CACHEBUSTER}''" for rest
    unfolding s_def using that by (intro contains_repeats) simp_all
  have "\<forall>kv \<in> set AMAZON_MACROS. fst kv \<noteq> [] \<and> \<not> contains (fst kv) s"
    by (simp add: AMAZON_MACROS_def nk del: contains.simps)
  then have m: "inject_amazon_macros s = s"
    unfolding inject_amazon_macros_fold by (rule macro_fold_id)
  have "\<not> contains ''${CACHEBUSTER}'' s" by (rule nk) simp_all
  then have c1: "replace_py ''${CACHEBUSTER}'' (generate_cache_buster t) s = s"
    by (intro replace_py_absent) simp_all
  have c2: "replace_py ''${AMAZON_CACHEBUSTER}'' (generate_cache_buster t) s
      = concat (replicate n (generate_cache_buster t))"
    unfolding s_def by (rule replace_py_repeats) simp
  show ?thesis
    unfolding s_def [symmetric] m
    by (simp only: inject_cache_buster_def Let_def option.case c1 c2)
qed

text \<open>
  C1 (amended). For a display creative the processed size that _transform_snippet
  records is greater than the size of the code that was handed to the wrapper; under
  PHASE_2 with the cache buster off it is greater than the original size. (The VAST
  wrappers do not embed the code, PHASE_1 removes tags, and the cache buster replaces a
  placeholder by a shorter token.)
\<close>

theorem C1_display_size_grows:
  "(transform_snippet e resp config = Inr (code, md) \<and> cfg_format config = RUNWAY \<longrightarrow>
      length (fst (prepare_code e (resp_snippet_code resp) config))
        < processed_snippet_size md)
   \<and> (transform_snippet e resp config = Inr (code, md) \<and> cfg_format config = RUNWAY
       \<and> phase (viewability_config config) = PHASE_2 \<and> \<not> cache_buster config \<longrightarrow>
      original_snippet_size md < processed_snippet_size md)"
proof (intro conjI impI)
  assume a: "transform_snippet e resp config = Inr (code, md) \<and> cfg_format config = RUNWAY"
  then have t: "transform_snippet e resp config = Inr (code, md)" by simp
  from transform_snippet_Inr [OF t] have
    w: "wrap_code (fst (prepare_code e (resp_snippet_code resp) config)) config = Inr code"
    and p: "processed_snippet_size md = length code" by simp_all
  from wrap_code_display_length [OF _ w] a p
  show "length (fst (prepare_code e (resp_snippet_code resp) config))
          < processed_snippet_size md" by simp
next
  assume a: "transform_snippet e resp config = Inr (code, md) \<and> cfg_format config = RUNWAY
       \<and> phase (viewability_config config) = PHASE_2 \<and> \<not> cache_buster config"
  then have t: "transform_snippet e resp config = Inr (code, md)" by simp
  from transform_snippet_Inr [OF t] have
    w: "wrap_code (fst (prepare_code e (resp_snippet_code resp) config)) config = Inr code"
    and p: "processed_snippet_size md = length code"
    and o: "original_snippet_size md = length (resp_snippet_code resp)" by simp_all
  from a have "fst (prepare_code e (resp_snippet_code resp) config)
      = inject_amazon_macros (resp_snippet_code resp)"
    by (simp add: prepare_code_def)
  then have "length (resp_snippet_code resp)
      \<le> length (fst (prepare_code e (resp_snippet_code resp) config))"
    by (simp add: inject_amazon_macros_length)
  also have "\<dots> < length code"
    using wrap_code_display_length [OF _ w] a by simp
  finally show "original_snippet_size md < processed_snippet_size md"
    using p o by simp
qed

theorem C1_display_size_grows_witness:
  "\<exists>code md. transform_snippet (example_env [])
                 (example_response ''<a href=${CLICK_URL}>x</a>'')
                 example_phase2_runway_config = Inr (code, md)
      \<and> original_snippet_size md = 26
      \<and> 26 < processed_snippet_size md"
proof -
  let ?e = "example_env []"
  let ?c = example_phase2_runway_config
  let ?resp = "example_response ''<a href=${CLICK_URL}>x</a>''"
  let ?code = "wrap_display_html5_phase2 (fst (prepare_code ?e (resp_snippet_code ?resp) ?c)) ?c"
  have c: "cfg_format ?c = RUNWAY" "phase (viewability_config ?c) = PHASE_2"
    "\<not> cache_buster ?c"
    by (simp_all add: example_phase2_runway_config_def example_defs)
  have "wrap_code (fst (prepare_code ?e (resp_snippet_code ?resp) ?c)) ?c = Inr ?code"
    using c by (simp add: wrap_code_def)
  from transform_snippet_wrapped [OF this] obtain md
    where t: "transform_snippet ?e ?resp ?c = Inr (?code, md)" by blast
  from transform_snippet_Inr [OF t]
  have o: "original_snippet_size md = 26" by (simp add: example_response_def)
  from C1_display_size_grows [of ?e ?resp ?c ?code md] t c
  have "original_snippet_size md < processed_snippet_size md" by blast
  with t o show ?thesis by auto
qed

text \<open>
  The claim C1 as stated fails in three ways. A video creative whose snippet has 10000
  characters gets a VAST wrapper of at most 5935. A display creative under PHASE_1
  whose snippet is a VendorB pixel address of 2026 characters is stripped to nothing and
  its wrapper has at most 1353. A display creative under PHASE_2 with the cache buster
  on, whose snippet is 400 cache-buster placeholders (8400 characters), has every
  placeholder replaced by a token of 13 digits and is wrapped into at most 7225.
\<close>

theorem C1_size_counterexample:
  "\<not> isl (transform_snippet (example_env [])
             (example_response (replicate 10000 CHR ''x'')) EXAMPLE_VIDEO_CONFIG)
   \<and> original_snippet_size (snd (projr (transform_snippet (example_env [])
         (example_response (replicate 10000 CHR ''x'')) EXAMPLE_VIDEO_CONFIG))) = 10000
   \<and> processed_snippet_size (snd (projr (transform_snippet (example_env [])
         (example_response (replicate 10000 CHR ''x'')) EXAMPLE_VIDEO_CONFIG))) \<le> 5935
   \<and> \<not> isl (transform_snippet (example_env [])
             (example_response (''pixel.adsafeprotected.com'' @ CHR ''/'' # replicate 2000 CHR ''a''))
             EXAMPLE_RUNWAY_CONFIG)
   \<and> original_snippet_size (snd (projr (transform_snippet (example_env [])
         (example_response (''pixel.adsafeprotected.com'' @ CHR ''/'' # replicate 2000 CHR ''a''))
         EXAMPLE_RUNWAY_CONFIG))) = 2026
   \<and> processed_snippet_size (snd (projr (transform_snippet (example_env [])
         (example_response (''pixel.adsafeprotected.com'' @ CHR ''/'' # replicate 2000 CHR ''a''))
         EXAMPLE_RUNWAY_CONFIG))) \<le> 1353
   \<and> \<not> isl (transform_snippet (example_env [])
             (example_response (concat (replicate 400 ''${AMAZON_CACHEBUSTER}'')))
             (EXAMPLE_RUNWAY_CONFIG\<lparr>viewability_config :=
                viewability_config EXAMPLE_VIDEO_CONFIG\<rparr>))
   \<and> original_snippet_size (snd (projr (transform_snippet (example_env [])
         (example_response (concat (replicate 400 ''${AMAZON_CACHEBUSTER}'')))
         (EXAMPLE_RUNWAY_CONFIG\<lparr>viewability_config :=
            viewability_config EXAMPLE_VIDEO_CONFIG\<rparr>)))) = 8400
   \<and> processed_snippet_size (snd (projr (transform_snippet (example_env [])
         (example_response (concat (replicate 400 ''${AMAZON_CACHEBUSTER}'')))
         (EXAMPLE_RUNWAY_CONFIG\<lparr>viewability_config :=
            viewability_config EXAMPLE_VIDEO_CONFIG\<rparr>)))) \<le> 7225"
proof -
  let ?e = "example_env []"
  have A: "\<not> isl (transform_snippet ?e (example_response (replicate 10000 CHR ''x''))
               EXAMPLE_VIDEO_CONFIG)
     \<and> original_snippet_size (snd (projr (transform_snippet ?e
           (example_response (replicate 10000 CHR ''x'')) EXAMPLE_VIDEO_CONFIG))) = 10000
     \<and> processed_snippet_size (snd (projr (transform_snippet ?e
           (example_response (replicate 10000 CHR ''x'')) EXAMPLE_VIDEO_CONFIG))) \<le> 5935"
  proof -
    let ?c = EXAMPLE_VIDEO_CONFIG
    let ?resp = "example_response (replicate 10000 CHR ''x'')"
    from example_video_wrapper_length obtain w
      where w: "wrap_vast_phase2 [] ?c = Inr w" and l: "length w \<le> 5935" by blast
    have "wrap_code (fst (prepare_code ?e (resp_snippet_code ?resp) ?c)) ?c
        = wrap_vast_phase2 (fst (prepare_code ?e (resp_snippet_code ?resp) ?c)) ?c"
      by (simp add: wrap_code_def EXAMPLE_VIDEO_CONFIG_def)
    with w have "wrap_code (fst (prepare_code ?e (resp_snippet_code ?resp) ?c)) ?c = Inr w"
      by (simp only: wrap_vast_phase2_ignores_code
            [of "fst (prepare_code ?e (resp_snippet_code ?resp) ?c)"])
    from transform_snippet_sizes [OF this] l show ?thesis
      by (simp add: example_response_def)
  qed
  have B: "\<not> isl (transform_snippet ?e
             (example_response (''pixel.adsafeprotected.com'' @ CHR ''/'' # replicate 2000 CHR ''a''))
             EXAMPLE_RUNWAY_CONFIG)
     \<and> original_snippet_size (snd (projr (transform_snippet ?e
         (example_response (''pixel.adsafeprotected.com'' @ CHR ''/'' # replicate 2000 CHR ''a''))
         EXAMPLE_RUNWAY_CONFIG))) = 2026
     \<and> processed_snippet_size (snd (projr (transform_snippet ?e
         (example_response (''pixel.adsafeprotected.com'' @ CHR ''/'' # replicate 2000 CHR ''a''))
         EXAMPLE_RUNWAY_CONFIG))) \<le> 1353"
  proof -
    let ?c = EXAMPLE_RUNWAY_CONFIG
    define s where "s = ''pixel.adsafeprotected.com'' @ CHR ''/'' # replicate 2000 CHR ''a''"
    have r: "remove_ias_tags s = ([], [s])" unfolding s_def by (rule ias_pixel_removed)
    have ls: "length s = 2026" by (simp add: s_def)
    have "prepare_code ?e s ?c = ([], [s])"
      by (simp add: prepare_code_def EXAMPLE_RUNWAY_CONFIG_def r inject_amazon_macros_def
            AMAZON_MACROS_def inject_cache_buster_def)
    then have "wrap_code (fst (prepare_code ?e (resp_snippet_code (example_response s)) ?c)) ?c
        = Inr (wrap_display_html5_phase1 [] ?c)"
      by (simp add: example_response_def wrap_code_def EXAMPLE_RUNWAY_CONFIG_def)
    from transform_snippet_sizes [OF this] example_display1_wrapper_length ls
    have "\<not> isl (transform_snippet ?e (example_response s) ?c)
     \<and> original_snippet_size (snd (projr (transform_snippet ?e (example_response s) ?c))) = 2026
     \<and> processed_snippet_size (snd (projr (transform_snippet ?e (example_response s) ?c)))
          \<le> 1353"
      by (simp add: example_response_def)
    then show ?thesis unfolding s_def .
  qed
  have C: "\<not> isl (transform_snippet ?e
             (example_response (concat (replicate 400 ''${AMAZON_CACHEBUSTER}'')))
             (EXAMPLE_RUNWAY_CONFIG\<lparr>viewability_config :=
                viewability_config EXAMPLE_VIDEO_CONFIG\<rparr>))
     \<and> original_snippet_size (snd (projr (transform_snippet ?e
         (example_response (concat (replicate 400 ''${AMAZON_CACHEBUSTER}'')))
         (EXAMPLE_RUNWAY_CONFIG\<lparr>viewability_config :=
            viewability_config EXAMPLE_VIDEO_CONFIG\<rparr>)))) = 8400
     \<and> processed_snippet_size (snd (projr (transform_snippet ?e
         (example_response (concat (replicate 400 ''${AMAZON_CACHEBUSTER}'')))
         (EXAMPLE_RUNWAY_CONFIG\<lparr>viewability_config :=
            viewability_config EXAMPLE_VIDEO_CONFIG\<rparr>)))) \<le> 7225"
  proof -
    let ?c = "EXAMPLE_RUNWAY_CONFIG\<lparr>viewability_config :=
                viewability_config EXAMPLE_VIDEO_CONFIG\<rparr>"
    define s where "s = concat (replicate 400 ''${AMAZON_CACHEBUSTER}'')"
    define code where "code = concat (replicate 400 (generate_cache_buster (now_ms ?e)))"
    have ls: "length s = 8400" by (simp add: s_def length_concat sum_list_replicate)
    have "generate_cache_buster (now_ms ?e) = ''1700000000000''"
      by (simp add: generate_cache_buster_def example_env_def digit_char_def)
    then have lc: "length code = 5200"
      by (simp add: code_def length_concat sum_list_replicate)
    have cfg: "cfg_format ?c = RUNWAY" "phase (viewability_config ?c) = PHASE_2"
      "cache_buster ?c"
      by (simp_all add: EXAMPLE_RUNWAY_CONFIG_def EXAMPLE_VIDEO_CONFIG_def)
    have "inject_cache_buster (now_ms ?e) (inject_amazon_macros s) None = code"
      unfolding s_def code_def by (rule cache_buster_repeats)
    with cfg have "fst (prepare_code ?e s ?c) = code"
      by (simp add: prepare_code_def)
    with cfg have "wrap_code (fst (prepare_code ?e (resp_snippet_code (example_response s)) ?c)) ?c
        = Inr (wrap_display_html5_phase2 code ?c)"
      by (simp add: example_response_def wrap_code_def)
    from transform_snippet_sizes [OF this] example_display2_wrapper_length [of code] ls lc
    have "\<not> isl (transform_snippet ?e (example_response s) ?c)
     \<and> original_snippet_size (snd (projr (transform_snippet ?e (example_response s) ?c))) = 8400
     \<and> processed_snippet_size (snd (projr (transform_snippet ?e (example_response s) ?c)))
          \<le> 7225"
      by (simp add: example_response_def)
    then show ?thesis unfolding s_def .
  qed
  show ?thesis using A B C by (elim conjE) (intro conjI; assumption)
qed

end
